theory Spec2Isabelle
  imports Main "HOL-Library.Word"
begin

section \<open>JavaScript strings\<close>

text \<open>
  A JavaScript string is a sequence of UTF-16 code units, and every index and length
  the program computes (\<open>match.index\<close>, \<open>full.length\<close>, \<open>indexOf\<close>, \<open>slice\<close>) counts
  code units. A text is therefore a list of 16-bit words. \<open>str\<close> embeds an ASCII
  literal; code units outside ASCII are written as numbers.
\<close>

type_synonym jschar = "16 word"
type_synonym jsstring = "jschar list"

definition str :: "string \<Rightarrow> jsstring" where
  "str = map of_char"

text \<open>\<open>s.slice(a, b)\<close>: a negative argument counts from the end, both are clamped.\<close>

definition slice :: "jsstring \<Rightarrow> int \<Rightarrow> int \<Rightarrow> jsstring" where
  "slice s a b =
     (let n = int (length s);
          from = (if a < 0 then max (n + a) 0 else min a n);
          to = (if b < 0 then max (n + b) 0 else min b n)
      in take (nat (to - from)) (drop (nat from) s))"

text \<open>\<open>s.indexOf(c, start)\<close> for a one-character search string: \<open>-1\<close> when absent.\<close>

definition indexOf :: "jsstring \<Rightarrow> jschar \<Rightarrow> nat \<Rightarrow> int" where
  "indexOf s c start =
     (let k = start + length (takeWhile (\<lambda>x. x \<noteq> c) (drop start s))
      in if k < length s then int k else - 1)"

definition startsWith :: "jsstring \<Rightarrow> jsstring \<Rightarrow> bool" where
  "startsWith s p \<longleftrightarrow> take (length p) s = p"

definition endsWith :: "jsstring \<Rightarrow> jsstring \<Rightarrow> bool" where
  "endsWith s p \<longleftrightarrow> length p \<le> length s \<and> drop (length s - length p) s = p"

text \<open>
  \<open>toLowerCase\<close> is applied by the program only to a tag name captured by
  \<open>[a-zA-Z][a-zA-Z0-9-]*\<close>, where it maps \<open>A\<close>..\<open>Z\<close> to \<open>a\<close>..\<open>z\<close> and leaves the
  other code units alone; that is the function modelled.
\<close>

definition toLowerChar :: "jschar \<Rightarrow> jschar" where
  "toLowerChar c = (if 0x41 \<le> c \<and> c \<le> 0x5A then c + 0x20 else c)"

definition toLowerCase :: "jsstring \<Rightarrow> jsstring" where
  "toLowerCase = map toLowerChar"

section \<open>Regular expressions\<close>

text \<open>
  The parser drives three regular expressions through \<open>RegExp.prototype.exec\<close>. They
  are transcribed as values of \<open>regex\<close> and run by a backtracking matcher that follows
  the ECMAScript semantics: \<open>rmatch r s (i, c)\<close> lists, in the order in which
  backtracking tries them, the states (end position, captures) in which \<open>r\<close> can
  match \<open>s\<close> from position \<open>i\<close> with captures \<open>c\<close>. The match that \<open>exec\<close> reports at a
  start position is the head of that list. A greedy quantifier tries one more
  iteration before it tries to stop, a lazy one the other way round, and an iteration
  of a quantifier that consumes nothing is rejected, as in the standard. No regex of
  the program has a capture group under a quantifier, so groups are never reset.
\<close>

datatype regex =
    Chr "jschar \<Rightarrow> bool"
  | Seq regex regex
  | Star regex
  | LazyStar regex
  | Opt regex
  | Group nat regex
  | WordB

type_synonym captures = "nat \<rightharpoonup> nat \<times> nat"
type_synonym mstate = "nat \<times> captures"

text \<open>\<open>\w\<close> is \<open>[A-Za-z0-9_]\<close>; \<open>\b\<close> holds where exactly one neighbour is a word character.\<close>

definition isWordChar :: "jschar \<Rightarrow> bool" where
  "isWordChar c \<longleftrightarrow>
     (0x41 \<le> c \<and> c \<le> 0x5A) \<or> (0x61 \<le> c \<and> c \<le> 0x7A) \<or> (0x30 \<le> c \<and> c \<le> 0x39) \<or> c = 0x5F"

definition wordAt :: "jsstring \<Rightarrow> int \<Rightarrow> bool" where
  "wordAt s k \<longleftrightarrow> 0 \<le> k \<and> k < int (length s) \<and> isWordChar (s ! nat k)"

function rmatch :: "regex \<Rightarrow> jsstring \<Rightarrow> mstate \<Rightarrow> mstate list" where
  "rmatch (Chr P) s (i, c) = (if i < length s \<and> P (s ! i) then [(Suc i, c)] else [])"
| "rmatch (Seq r1 r2) s st = concat (map (rmatch r2 s) (rmatch r1 s st))"
| "rmatch (Star r) s (i, c) =
     concat (map (rmatch (Star r) s)
                 (filter (\<lambda>st'. i < fst st' \<and> fst st' \<le> length s) (rmatch r s (i, c))))
     @ [(i, c)]"
| "rmatch (LazyStar r) s (i, c) =
     (i, c) #
     concat (map (rmatch (LazyStar r) s)
                 (filter (\<lambda>st'. i < fst st' \<and> fst st' \<le> length s) (rmatch r s (i, c))))"
| "rmatch (Opt r) s (i, c) = filter (\<lambda>st'. fst st' \<noteq> i) (rmatch r s (i, c)) @ [(i, c)]"
| "rmatch (Group n r) s (i, c) = map (\<lambda>(j, c'). (j, c'(n \<mapsto> (i, j)))) (rmatch r s (i, c))"
| "rmatch WordB s (i, c) = (if wordAt s (int i - 1) \<noteq> wordAt s (int i) then [(i, c)] else [])"
  by pat_completeness auto
termination
  by (relation "measures [\<lambda>(r, s, st). size r, \<lambda>(r, s, st). length s - fst st]") auto

text \<open>
  The result of \<open>exec\<close>: where the match starts and ends, and the captures. \<open>rsearch r s i\<close>
  is \<open>exec\<close> with \<open>lastIndex = i\<close>: the first start position from \<open>i\<close> on, up to the end
  of the text, at which the regex matches.
\<close>

record RegExpMatch =
  index :: nat
  mend :: nat
  caps :: captures

function rsearch :: "regex \<Rightarrow> jsstring \<Rightarrow> nat \<Rightarrow> RegExpMatch option" where
  "rsearch r s i =
     (if length s < i then None
      else case rmatch r s (i, Map.empty) of
             [] \<Rightarrow> rsearch r s (Suc i)
           | (e, c) # _ \<Rightarrow> Some \<lparr>index = i, mend = e, caps = c\<rparr>)"
  by pat_completeness auto
termination
  by (relation "measure (\<lambda>(r, s, i). Suc (length s) - i)") auto

text \<open>\<open>match[0]\<close>, and \<open>match[k]\<close>, which is \<open>undefined\<close> (\<open>None\<close>) for a group that took no part.\<close>

definition matched :: "jsstring \<Rightarrow> RegExpMatch \<Rightarrow> jsstring" where
  "matched s m = take (mend m - index m) (drop (index m) s)"

definition group :: "jsstring \<Rightarrow> RegExpMatch \<Rightarrow> nat \<Rightarrow> jsstring option" where
  "group s m k = (case caps m k of None \<Rightarrow> None | Some (a, b) \<Rightarrow> Some (take (b - a) (drop a s)))"

text \<open>A literal string in a pattern, followed by the rest of the pattern.\<close>

fun lit :: "jsstring \<Rightarrow> regex \<Rightarrow> regex" where
  "lit [] r = r"
| "lit (x # xs) r = Seq (Chr (\<lambda>c. c = x)) (lit xs r)"

text \<open>
  Under the \<open>i\<close> flag a pattern character matches the code units with the same
  canonical form. Without the \<open>u\<close> flag the canonical form is the upper-case
  mapping, except that a code unit from 128 on is never mapped below 128: an ASCII
  pattern character is matched by itself and, when it is a letter, by the ASCII
  letter of the other case, and by nothing else.
\<close>

definition asciiUpper :: "jschar \<Rightarrow> jschar" where
  "asciiUpper c = (if 0x61 \<le> c \<and> c \<le> 0x7A then c - 0x20 else c)"

fun liti :: "jsstring \<Rightarrow> regex \<Rightarrow> regex" where
  "liti [] r = r"
| "liti (x # xs) r = Seq (Chr (\<lambda>c. asciiUpper c = asciiUpper x)) (liti xs r)"

section \<open>nestingRules.ts: the rule catalogue\<close>

record NestingRule =
  parent :: jsstring
  child :: jsstring
  reason :: jsstring
  alternatives :: "jsstring list"
  references :: "(jsstring \<times> jsstring) list"

text \<open>The catalogue of standard tags, in the order of the source array.\<close>

definition ALL_HTML_TAGS :: "jsstring list" where
  "ALL_HTML_TAGS = map str
    [''a'', ''abbr'', ''address'', ''area'', ''article'', ''aside'', ''audio'', ''b'',
     ''base'', ''bdi'', ''bdo'', ''blockquote'', ''body'', ''br'', ''button'', ''canvas'',
     ''caption'', ''cite'', ''code'', ''col'', ''colgroup'', ''data'', ''datalist'',
     ''dd'', ''del'', ''details'', ''dfn'', ''dialog'', ''div'', ''dl'', ''dt'', ''em'',
     ''embed'', ''fieldset'', ''figcaption'', ''figure'', ''footer'', ''form'', ''h1'',
     ''h2'', ''h3'', ''h4'', ''h5'', ''h6'', ''head'', ''header'', ''hgroup'', ''hr'',
     ''html'', ''i'', ''iframe'', ''img'', ''input'', ''ins'', ''kbd'', ''label'',
     ''legend'', ''li'', ''link'', ''main'', ''map'', ''mark'', ''menu'', ''meta'',
     ''meter'', ''nav'', ''noscript'', ''object'', ''ol'', ''optgroup'', ''option'',
     ''output'', ''p'', ''param'', ''picture'', ''pre'', ''progress'', ''q'', ''rp'',
     ''rt'', ''ruby'', ''s'', ''samp'', ''script'', ''search'', ''section'', ''select'',
     ''slot'', ''small'', ''source'', ''span'', ''strong'', ''style'', ''sub'',
     ''summary'', ''sup'', ''table'', ''tbody'', ''td'', ''template'', ''textarea'',
     ''tfoot'', ''th'', ''thead'', ''time'', ''title'', ''tr'', ''track'', ''u'', ''ul'',
     ''var'', ''video'', ''wbr'']"

definition HTML_TAGS_SET :: "jsstring set" where
  "HTML_TAGS_SET = set ALL_HTML_TAGS"

definition PHRASING_CONTENT_TAGS :: "jsstring list" where
  "PHRASING_CONTENT_TAGS = map str
    [''a'', ''abbr'', ''audio'', ''b'', ''bdi'', ''bdo'', ''br'', ''button'', ''canvas'',
     ''cite'', ''code'', ''data'', ''datalist'', ''del'', ''dfn'', ''em'', ''embed'',
     ''i'', ''iframe'', ''img'', ''input'', ''ins'', ''kbd'', ''label'', ''map'', ''mark'',
     ''meter'', ''noscript'', ''object'', ''output'', ''picture'', ''progress'', ''q'',
     ''ruby'', ''s'', ''samp'', ''script'', ''select'', ''slot'', ''small'', ''span'',
     ''strong'', ''sub'', ''sup'', ''template'', ''textarea'', ''time'', ''u'', ''var'',
     ''video'', ''wbr'']"

text \<open>The explicit, hand-written rules: \<open>child\<close> must not stand inside \<open>parent\<close>.\<close>

definition NESTING_RULES :: "NestingRule list" where
  "NESTING_RULES =
    [\<lparr>parent = str ''p'', child = str ''div'',
      reason = str ''<p> solo puede contener phrasing content (texto e inline). <div> es un bloque y cierra impl'' @ [0xED] @ str ''citamente el <p>.'',
      alternatives =
       [str ''Usa <div> en lugar de <p> si necesitas contener bloques.'',
        str ''Mueve el <div> fuera del <p>.'',
        str ''Si quieres un p'' @ [0xE1] @ str ''rrafo con un wrapper, usa <section> o <article>.''],
      references =
       [(str ''MDN: <p>'',
         str ''https://developer.mozilla.org/es/docs/Web/HTML/Element/p''),
        (str ''HTML Spec: phrasing content'',
         str ''https://html.spec.whatwg.org/multipage/dom.html#phrasing-content'')]\<rparr>,
     \<lparr>parent = str ''p'', child = str ''h1'',
      reason = str ''Los encabezados no pueden ir dentro de <p>.'',
      alternatives =
       [str ''Cierra el <p> antes del encabezado.'',
        str ''Usa <p> antes y despu'' @ [0xE9] @ str ''s del encabezado.''],
      references =
       [(str ''MDN: <p>'',
         str ''https://developer.mozilla.org/es/docs/Web/HTML/Element/p'')]\<rparr>,
     \<lparr>parent = str ''p'', child = str ''h2'',
      reason = str ''Los encabezados no pueden ir dentro de <p>.'',
      alternatives =
       [str ''Cierra el <p> antes del encabezado.''],
      references =
       [(str ''MDN: <p>'',
         str ''https://developer.mozilla.org/es/docs/Web/HTML/Element/p'')]\<rparr>,
     \<lparr>parent = str ''p'', child = str ''h3'',
      reason = str ''Los encabezados no pueden ir dentro de <p>.'',
      alternatives =
       [str ''Cierra el <p> antes del encabezado.''],
      references =
       [(str ''MDN: <p>'',
         str ''https://developer.mozilla.org/es/docs/Web/HTML/Element/p'')]\<rparr>,
     \<lparr>parent = str ''p'', child = str ''h4'',
      reason = str ''Los encabezados no pueden ir dentro de <p>.'',
      alternatives =
       [str ''Cierra el <p> antes del encabezado.''],
      references =
       [(str ''MDN: <p>'',
         str ''https://developer.mozilla.org/es/docs/Web/HTML/Element/p'')]\<rparr>,
     \<lparr>parent = str ''p'', child = str ''h5'',
      reason = str ''Los encabezados no pueden ir dentro de <p>.'',
      alternatives =
       [str ''Cierra el <p> antes del encabezado.''],
      references =
       [(str ''MDN: <p>'',
         str ''https://developer.mozilla.org/es/docs/Web/HTML/Element/p'')]\<rparr>,
     \<lparr>parent = str ''p'', child = str ''h6'',
      reason = str ''Los encabezados no pueden ir dentro de <p>.'',
      alternatives =
       [str ''Cierra el <p> antes del encabezado.''],
      references =
       [(str ''MDN: <p>'',
         str ''https://developer.mozilla.org/es/docs/Web/HTML/Element/p'')]\<rparr>,
     \<lparr>parent = str ''p'', child = str ''ul'',
      reason = str ''<ul> es un bloque y no puede ir dentro de <p>.'',
      alternatives =
       [str ''Cierra <p> antes de la lista.'',
        str ''Usa un <div> como wrapper en lugar de <p>.''],
      references =
       [(str ''MDN: <p>'',
         str ''https://developer.mozilla.org/es/docs/Web/HTML/Element/p'')]\<rparr>,
     \<lparr>parent = str ''p'', child = str ''ol'',
      reason = str ''<ol> es un bloque y no puede ir dentro de <p>.'',
      alternatives =
       [str ''Cierra <p> antes de la lista.'',
        str ''Usa un <div> como wrapper.''],
      references =
       [(str ''MDN: <p>'',
         str ''https://developer.mozilla.org/es/docs/Web/HTML/Element/p'')]\<rparr>,
     \<lparr>parent = str ''p'', child = str ''table'',
      reason = str ''<table> es un bloque y no puede ir dentro de <p>.'',
      alternatives =
       [str ''Coloca la tabla fuera del <p>.'',
        str ''Usa un <div> o <section> como contenedor.''],
      references =
       [(str ''MDN: <p>'',
         str ''https://developer.mozilla.org/es/docs/Web/HTML/Element/p'')]\<rparr>,
     \<lparr>parent = str ''p'', child = str ''form'',
      reason = str ''<form> no puede anidarse dentro de <p>.'',
      alternatives =
       [str ''Coloca el <form> fuera del <p>.''],
      references =
       [(str ''MDN: <p>'',
         str ''https://developer.mozilla.org/es/docs/Web/HTML/Element/p'')]\<rparr>,
     \<lparr>parent = str ''p'', child = str ''blockquote'',
      reason = str ''<blockquote> es un bloque y no puede ir dentro de <p>.'',
      alternatives =
       [str ''Coloca el <blockquote> fuera del <p>.''],
      references =
       [(str ''MDN: <p>'',
         str ''https://developer.mozilla.org/es/docs/Web/HTML/Element/p'')]\<rparr>,
     \<lparr>parent = str ''p'', child = str ''pre'',
      reason = str ''<pre> es un bloque y no puede ir dentro de <p>.'',
      alternatives =
       [str ''Coloca el <pre> fuera del <p>.''],
      references =
       [(str ''MDN: <p>'',
         str ''https://developer.mozilla.org/es/docs/Web/HTML/Element/p'')]\<rparr>,
     \<lparr>parent = str ''p'', child = str ''section'',
      reason = str ''<section> es un bloque y no puede ir dentro de <p>.'',
      alternatives =
       [str ''Usa <div> en lugar de <p>, o reestructura el contenido.''],
      references =
       [(str ''MDN: <p>'',
         str ''https://developer.mozilla.org/es/docs/Web/HTML/Element/p'')]\<rparr>,
     \<lparr>parent = str ''p'', child = str ''article'',
      reason = str ''<article> es un bloque y no puede ir dentro de <p>.'',
      alternatives =
       [str ''Usa <div> como contenedor en lugar de <p>.''],
      references =
       [(str ''MDN: <p>'',
         str ''https://developer.mozilla.org/es/docs/Web/HTML/Element/p'')]\<rparr>,
     \<lparr>parent = str ''p'', child = str ''aside'',
      reason = str ''<aside> es un bloque y no puede ir dentro de <p>.'',
      alternatives =
       [str ''Usa <div> como contenedor.''],
      references =
       [(str ''MDN: <p>'',
         str ''https://developer.mozilla.org/es/docs/Web/HTML/Element/p'')]\<rparr>,
     \<lparr>parent = str ''p'', child = str ''figure'',
      reason = str ''<figure> es un bloque y no puede ir dentro de <p>.'',
      alternatives =
       [str ''Coloca el <figure> fuera del <p>.''],
      references =
       [(str ''MDN: <figure>'',
         str ''https://developer.mozilla.org/es/docs/Web/HTML/Element/figure'')]\<rparr>,
     \<lparr>parent = str ''p'', child = str ''footer'',
      reason = str ''<footer> es un bloque y no puede ir dentro de <p>.'',
      alternatives =
       [str ''Coloca el <footer> fuera del <p>.''],
      references =
       [(str ''MDN: <p>'',
         str ''https://developer.mozilla.org/es/docs/Web/HTML/Element/p'')]\<rparr>,
     \<lparr>parent = str ''p'', child = str ''header'',
      reason = str ''<header> es un bloque y no puede ir dentro de <p>.'',
      alternatives =
       [str ''Coloca el <header> fuera del <p>.''],
      references =
       [(str ''MDN: <p>'',
         str ''https://developer.mozilla.org/es/docs/Web/HTML/Element/p'')]\<rparr>,
     \<lparr>parent = str ''p'', child = str ''nav'',
      reason = str ''<nav> es un bloque y no puede ir dentro de <p>.'',
      alternatives =
       [str ''Coloca el <nav> fuera del <p>.''],
      references =
       [(str ''MDN: <p>'',
         str ''https://developer.mozilla.org/es/docs/Web/HTML/Element/p'')]\<rparr>,
     \<lparr>parent = str ''p'', child = str ''main'',
      reason = str ''<main> es un bloque y no puede ir dentro de <p>.'',
      alternatives =
       [str ''Coloca el <main> fuera del <p>.''],
      references =
       [(str ''MDN: <p>'',
         str ''https://developer.mozilla.org/es/docs/Web/HTML/Element/p'')]\<rparr>,
     \<lparr>parent = str ''a'', child = str ''a'',
      reason = str ''No puedes anidar un <a> dentro de otro <a>. Es inv'' @ [0xE1] @ str ''lido seg'' @ [0xFA] @ str ''n la especificaci'' @ [0xF3] @ str ''n HTML.'',
      alternatives =
       [str ''Usa CSS para dar apariencia de enlace a un contenedor.'',
        str ''Usa JavaScript (onclick) en un <div> o <span>.'',
        str ''Reestructura el contenido para tener enlaces separados.''],
      references =
       [(str ''MDN: <a>'',
         str ''https://developer.mozilla.org/es/docs/Web/HTML/Element/a''),
        (str ''HTML Spec: transparent content'',
         str ''https://html.spec.whatwg.org/multipage/text-level-semantics.html#the-a-element'')]\<rparr>,
     \<lparr>parent = str ''a'', child = str ''button'',
      reason = str ''Un <button> es interactivo y no puede estar dentro de un <a> (ambos son focusables).'',
      alternatives =
       [str ''Usa solo <a> o solo <button>, no ambos.'',
        str ''Si necesitas un enlace con estilo de bot'' @ [0xF3] @ str ''n, usa <a class='' @ [0x27] @ str ''btn'' @ [0x27] @ str ''>.'',
        str ''Si necesitas acci'' @ [0xF3] @ str ''n + navegaci'' @ [0xF3] @ str ''n, maneja con JavaScript.''],
      references =
       [(str ''MDN: <a>'',
         str ''https://developer.mozilla.org/es/docs/Web/HTML/Element/a''),
        (str ''WCAG: Interactive elements'',
         str ''https://www.w3.org/WAI/WCAG21/Understanding/keyboard.html'')]\<rparr>,
     \<lparr>parent = str ''a'', child = str ''input'',
      reason = str ''Elementos de formulario interactivos no deben ir dentro de <a>.'',
      alternatives =
       [str ''Usa el formulario fuera del enlace.'',
        str ''Usa JavaScript para la acci'' @ [0xF3] @ str ''n del input.''],
      references =
       [(str ''MDN: <a>'',
         str ''https://developer.mozilla.org/es/docs/Web/HTML/Element/a'')]\<rparr>,
     \<lparr>parent = str ''a'', child = str ''select'',
      reason = str ''Elementos de formulario interactivos no deben ir dentro de <a>.'',
      alternatives =
       [str ''Usa el select fuera del enlace.''],
      references =
       [(str ''MDN: <a>'',
         str ''https://developer.mozilla.org/es/docs/Web/HTML/Element/a'')]\<rparr>,
     \<lparr>parent = str ''a'', child = str ''textarea'',
      reason = str ''Elementos de formulario interactivos no deben ir dentro de <a>.'',
      alternatives =
       [str ''Usa el textarea fuera del enlace.''],
      references =
       [(str ''MDN: <a>'',
         str ''https://developer.mozilla.org/es/docs/Web/HTML/Element/a'')]\<rparr>,
     \<lparr>parent = str ''button'', child = str ''a'',
      reason = str ''Un enlace <a> no puede estar dentro de un <button>. Crea conflictos de accesibilidad y comportamiento.'',
      alternatives =
       [str ''Usa solo <a> con estilos CSS para que parezca bot'' @ [0xF3] @ str ''n.'',
        str ''Usa solo <button> con JavaScript para la navegaci'' @ [0xF3] @ str ''n.'',
        str ''Usa <a role='' @ [0x27] @ str ''button'' @ [0x27] @ str ''> para sem'' @ [0xE1] @ str ''ntica de bot'' @ [0xF3] @ str ''n en un enlace.''],
      references =
       [(str ''MDN: <button>'',
         str ''https://developer.mozilla.org/es/docs/Web/HTML/Element/button''),
        (str ''WCAG: Botones y enlaces'',
         str ''https://www.w3.org/WAI/WCAG21/Techniques/html/H91'')]\<rparr>,
     \<lparr>parent = str ''button'', child = str ''button'',
      reason = str ''No puedes anidar un <button> dentro de otro <button>.'',
      alternatives =
       [str ''Usa botones separados.'',
        str ''Usa CSS para crear grupos de botones visualmente.''],
      references =
       [(str ''MDN: <button>'',
         str ''https://developer.mozilla.org/es/docs/Web/HTML/Element/button'')]\<rparr>,
     \<lparr>parent = str ''button'', child = str ''input'',
      reason = str ''Elementos de formulario interactivos no deben ir dentro de <button>.'',
      alternatives =
       [str ''Usa el input fuera del bot'' @ [0xF3] @ str ''n.''],
      references =
       [(str ''MDN: <button>'',
         str ''https://developer.mozilla.org/es/docs/Web/HTML/Element/button'')]\<rparr>,
     \<lparr>parent = str ''table'', child = str ''div'',
      reason = str ''<div> no puede ser hijo directo de <table>. Los hijos v'' @ [0xE1] @ str ''lidos son: <thead>, <tbody>, <tfoot>, <tr>, <caption>, <colgroup>.'',
      alternatives =
       [str ''Usa <td> o <th> para el contenido.'',
        str ''Coloca el <div> dentro de una celda <td>.'',
        str ''Considera usar CSS Grid o Flexbox si no necesitas sem'' @ [0xE1] @ str ''ntica de tabla.''],
      references =
       [(str ''MDN: <table>'',
         str ''https://developer.mozilla.org/es/docs/Web/HTML/Element/table''),
        (str ''HTML Spec: table'',
         str ''https://html.spec.whatwg.org/multipage/tables.html#the-table-element'')]\<rparr>,
     \<lparr>parent = str ''table'', child = str ''p'',
      reason = str ''<p> no puede ser hijo directo de <table>.'',
      alternatives =
       [str ''Coloca el <p> dentro de una celda <td>.'',
        str ''Usa <caption> para texto descriptivo de la tabla.''],
      references =
       [(str ''MDN: <table>'',
         str ''https://developer.mozilla.org/es/docs/Web/HTML/Element/table'')]\<rparr>,
     \<lparr>parent = str ''tr'', child = str ''div'',
      reason = str ''<div> no puede ser hijo directo de <tr>. Solo se permiten <td> y <th>.'',
      alternatives =
       [str ''Coloca el <div> dentro de <td>.'',
        str ''Usa CSS para lograr el layout deseado dentro de la celda.''],
      references =
       [(str ''MDN: <tr>'',
         str ''https://developer.mozilla.org/es/docs/Web/HTML/Element/tr'')]\<rparr>,
     \<lparr>parent = str ''tr'', child = str ''p'',
      reason = str ''<p> no puede ser hijo directo de <tr>. Solo se permiten <td> y <th>.'',
      alternatives =
       [str ''Coloca el <p> dentro de <td>.''],
      references =
       [(str ''MDN: <tr>'',
         str ''https://developer.mozilla.org/es/docs/Web/HTML/Element/tr'')]\<rparr>,
     \<lparr>parent = str ''tr'', child = str ''span'',
      reason = str ''<span> no puede ser hijo directo de <tr>.'',
      alternatives =
       [str ''Coloca el <span> dentro de <td>.''],
      references =
       [(str ''MDN: <tr>'',
         str ''https://developer.mozilla.org/es/docs/Web/HTML/Element/tr'')]\<rparr>,
     \<lparr>parent = str ''tr'', child = str ''a'',
      reason = str ''<a> no puede ser hijo directo de <tr>.'',
      alternatives =
       [str ''Coloca el enlace dentro de <td>.''],
      references =
       [(str ''MDN: <tr>'',
         str ''https://developer.mozilla.org/es/docs/Web/HTML/Element/tr'')]\<rparr>,
     \<lparr>parent = str ''ul'', child = str ''div'',
      reason = str ''<ul> solo puede contener elementos <li> como hijos directos.'',
      alternatives =
       [str ''Envuelve el <div> dentro de un <li>.'',
        str ''Usa CSS Flexbox/Grid en lugar de <ul> si no necesitas sem'' @ [0xE1] @ str ''ntica de lista.''],
      references =
       [(str ''MDN: <ul>'',
         str ''https://developer.mozilla.org/es/docs/Web/HTML/Element/ul'')]\<rparr>,
     \<lparr>parent = str ''ul'', child = str ''p'',
      reason = str ''<ul> solo puede contener elementos <li> como hijos directos.'',
      alternatives =
       [str ''Envuelve el <p> dentro de un <li>.''],
      references =
       [(str ''MDN: <ul>'',
         str ''https://developer.mozilla.org/es/docs/Web/HTML/Element/ul'')]\<rparr>,
     \<lparr>parent = str ''ul'', child = str ''span'',
      reason = str ''<ul> solo puede contener elementos <li> como hijos directos.'',
      alternatives =
       [str ''Envuelve el <span> dentro de un <li>.''],
      references =
       [(str ''MDN: <ul>'',
         str ''https://developer.mozilla.org/es/docs/Web/HTML/Element/ul'')]\<rparr>,
     \<lparr>parent = str ''ul'', child = str ''a'',
      reason = str ''<ul> solo puede contener <li> como hijos directos.'',
      alternatives =
       [str ''Envuelve el <a> dentro de un <li>.''],
      references =
       [(str ''MDN: <ul>'',
         str ''https://developer.mozilla.org/es/docs/Web/HTML/Element/ul'')]\<rparr>,
     \<lparr>parent = str ''ol'', child = str ''div'',
      reason = str ''<ol> solo puede contener elementos <li> como hijos directos.'',
      alternatives =
       [str ''Envuelve el <div> dentro de un <li>.''],
      references =
       [(str ''MDN: <ol>'',
         str ''https://developer.mozilla.org/es/docs/Web/HTML/Element/ol'')]\<rparr>,
     \<lparr>parent = str ''ol'', child = str ''p'',
      reason = str ''<ol> solo puede contener elementos <li> como hijos directos.'',
      alternatives =
       [str ''Envuelve el <p> dentro de un <li>.''],
      references =
       [(str ''MDN: <ol>'',
         str ''https://developer.mozilla.org/es/docs/Web/HTML/Element/ol'')]\<rparr>,
     \<lparr>parent = str ''head'', child = str ''div'',
      reason = str ''<head> no puede contener elementos visibles como <div>.'',
      alternatives =
       [str ''Coloca el <div> dentro del <body>.'',
        str ''Usa <meta>, <link>, <script> o <style> dentro de <head>.''],
      references =
       [(str ''MDN: <head>'',
         str ''https://developer.mozilla.org/es/docs/Web/HTML/Element/head'')]\<rparr>,
     \<lparr>parent = str ''head'', child = str ''p'',
      reason = str ''<head> no puede contener elementos visibles como <p>.'',
      alternatives =
       [str ''Coloca el contenido dentro del <body>.''],
      references =
       [(str ''MDN: <head>'',
         str ''https://developer.mozilla.org/es/docs/Web/HTML/Element/head'')]\<rparr>,
     \<lparr>parent = str ''form'', child = str ''form'',
      reason = str ''No puedes anidar un <form> dentro de otro <form>.'',
      alternatives =
       [str ''Usa un solo formulario con fieldsets para agrupar.'',
        str ''Usa JavaScript para manejar m'' @ [0xFA] @ str ''ltiples sets de datos.'',
        str ''Usa <dialog> para formularios secundarios.''],
      references =
       [(str ''MDN: <form>'',
         str ''https://developer.mozilla.org/es/docs/Web/HTML/Element/form''),
        (str ''HTML Spec: form'',
         str ''https://html.spec.whatwg.org/multipage/form-elements.html#the-form-element'')]\<rparr>,
     \<lparr>parent = str ''h1'', child = str ''h1'',
      reason = str ''No puedes anidar encabezados del mismo nivel.'',
      alternatives =
       [str ''Usa encabezados jer'' @ [0xE1] @ str ''rquicos (h1 > h2 > h3...).''],
      references =
       [(str ''MDN: Headings'',
         str ''https://developer.mozilla.org/es/docs/Web/HTML/Element/Heading_Elements'')]\<rparr>,
     \<lparr>parent = str ''h1'', child = str ''h2'',
      reason = str ''No puedes anidar encabezados dentro de otros encabezados.'',
      alternatives =
       [str ''Usa los encabezados como elementos separados, no anidados.''],
      references =
       [(str ''MDN: Headings'',
         str ''https://developer.mozilla.org/es/docs/Web/HTML/Element/Heading_Elements'')]\<rparr>,
     \<lparr>parent = str ''h2'', child = str ''h1'',
      reason = str ''No puedes anidar encabezados.'',
      alternatives =
       [str ''Usa los encabezados como elementos separados.''],
      references =
       [(str ''MDN: Headings'',
         str ''https://developer.mozilla.org/es/docs/Web/HTML/Element/Heading_Elements'')]\<rparr>,
     \<lparr>parent = str ''label'', child = str ''label'',
      reason = str ''No puedes anidar un <label> dentro de otro <label>.'',
      alternatives =
       [str ''Usa etiquetas separadas para cada control de formulario.''],
      references =
       [(str ''MDN: <label>'',
         str ''https://developer.mozilla.org/es/docs/Web/HTML/Element/label'')]\<rparr>,
     \<lparr>parent = str ''select'', child = str ''div'',
      reason = str ''<select> solo puede contener <option> y <optgroup>.'',
      alternatives =
       [str ''Usa <option> para las opciones.'',
        str ''Si necesitas m'' @ [0xE1] @ str ''s control visual, considera librer'' @ [0xED] @ str ''as de UI custom.''],
      references =
       [(str ''MDN: <select>'',
         str ''https://developer.mozilla.org/es/docs/Web/HTML/Element/select'')]\<rparr>,
     \<lparr>parent = str ''select'', child = str ''span'',
      reason = str ''<select> solo puede contener <option> y <optgroup>.'',
      alternatives =
       [str ''Usa <option> dentro de <select>.''],
      references =
       [(str ''MDN: <select>'',
         str ''https://developer.mozilla.org/es/docs/Web/HTML/Element/select'')]\<rparr>,
     \<lparr>parent = str ''figcaption'', child = str ''figcaption'',
      reason = str ''No puedes anidar <figcaption> dentro de otro <figcaption>.'',
      alternatives =
       [str ''Usa solo un <figcaption> por <figure>.''],
      references =
       [(str ''MDN: <figcaption>'',
         str ''https://developer.mozilla.org/es/docs/Web/HTML/Element/figcaption'')]\<rparr>,
     \<lparr>parent = str ''summary'', child = str ''div'',
      reason = str ''<summary> solo puede contener phrasing content. <div> es un bloque.'',
      alternatives =
       [str ''Usa <span> o texto directamente en <summary>.''],
      references =
       [(str ''MDN: <summary>'',
         str ''https://developer.mozilla.org/es/docs/Web/HTML/Element/summary'')]\<rparr>,
     \<lparr>parent = str ''dt'', child = str ''div'',
      reason = str ''<dt> solo puede contener phrasing content.'',
      alternatives =
       [str ''Usa solo texto o elementos inline dentro de <dt>.''],
      references =
       [(str ''MDN: <dt>'',
         str ''https://developer.mozilla.org/es/docs/Web/HTML/Element/dt'')]\<rparr>,
     \<lparr>parent = str ''caption'', child = str ''table'',
      reason = str ''No puedes anidar una tabla dentro de <caption>.'',
      alternatives =
       [str ''Usa <p> o texto simple en <caption>.''],
      references =
       [(str ''MDN: <caption>'',
         str ''https://developer.mozilla.org/es/docs/Web/HTML/Element/caption'')]\<rparr>]"

definition DEFAULT_REFS :: "(jsstring \<times> jsstring) list" where
  "DEFAULT_REFS =
    [(str ''HTML Living Standard'', str ''https://html.spec.whatwg.org/''),
     (str ''MDN: Referencia HTML'', str ''https://developer.mozilla.org/es/docs/Web/HTML/Element'')]"

definition makeRule ::
  "jsstring \<Rightarrow> jsstring \<Rightarrow> jsstring \<Rightarrow> jsstring list \<Rightarrow> (jsstring \<times> jsstring) list \<Rightarrow> NestingRule" where
  "makeRule p c r alts refs =
     \<lparr>parent = p, child = c, reason = r, alternatives = alts, references = refs\<rparr>"

text \<open>
  One rule for every catalogue tag that is not an allowed child of \<open>parent\<close>. A
  JavaScript \<open>Set\<close> built from an array literal is modelled by that array; \<open>has\<close> is
  membership.
\<close>

definition generateRulesForAllowedChildren ::
  "jsstring \<Rightarrow> jsstring list \<Rightarrow> jsstring \<Rightarrow> jsstring list \<Rightarrow> (jsstring \<times> jsstring) list
     \<Rightarrow> NestingRule list" where
  "generateRulesForAllowedChildren p allowedChildren r alts refs =
     concat (map (\<lambda>c. if c \<notin> set allowedChildren then [makeRule p c r alts refs] else [])
                 ALL_HTML_TAGS)"

text \<open>The list \<open>autoRules\<close> of \<open>generateAutomaticRules\<close>, in the order of its pushes.\<close>

definition autoRules :: "NestingRule list" where
  "autoRules =
     generateRulesForAllowedChildren (str ''html'') (map str [''head'', ''body''])
       (str ''<html> solo puede contener <head> y <body> como hijos directos.'')
       [str ''Mueve este elemento dentro de <head> o <body> seg'' @ [0xFA] @ str ''n corresponda.''] DEFAULT_REFS
   @ generateRulesForAllowedChildren (str ''head'')
       (map str [''base'', ''link'', ''meta'', ''noscript'', ''script'', ''style'', ''template'', ''title''])
       (str ''<head> solo puede contener metadatos y recursos del documento.'')
       [str ''Mueve contenido visible dentro de <body>.''] DEFAULT_REFS
   @ generateRulesForAllowedChildren (str ''table'')
       (map str [''caption'', ''colgroup'', ''thead'', ''tbody'', ''tfoot'', ''tr'', ''script'', ''template''])
       (str ''<table> tiene una estructura de hijos directos restringida por la especificaci'' @ [0xF3] @ str ''n.'')
       [str ''Usa <thead>, <tbody>, <tfoot> y filas <tr> para estructurar la tabla.''] DEFAULT_REFS
   @ generateRulesForAllowedChildren (str ''colgroup'') (map str [''col'', ''template''])
       (str ''<colgroup> solo admite <col> (y opcionalmente <template>).'')
       [str ''Reemplaza este hijo por elementos <col>.''] DEFAULT_REFS
   @ concat (map (\<lambda>sectionTag.
        generateRulesForAllowedChildren sectionTag (map str [''tr'', ''script'', ''template''])
          (str ''<'' @ sectionTag @ str ''> solo admite filas <tr> como hijos directos.'')
          [str ''Mueve este elemento dentro de una celda (<td>/<th>) dentro de <tr>.''] DEFAULT_REFS)
        (map str [''thead'', ''tbody'', ''tfoot'']))
   @ generateRulesForAllowedChildren (str ''tr'') (map str [''td'', ''th'', ''script'', ''template''])
       (str ''<tr> solo puede contener celdas <td> o encabezados <th>.'')
       [str ''Encapsula el contenido dentro de <td> o <th>.''] DEFAULT_REFS
   @ concat (map (\<lambda>listTag.
        generateRulesForAllowedChildren listTag (map str [''li'', ''script'', ''template''])
          (str ''<'' @ listTag @ str ''> solo puede contener <li> como hijos directos.'')
          [str ''Envuelve el contenido en <li>.''] DEFAULT_REFS)
        (map str [''ul'', ''ol'', ''menu'']))
   @ generateRulesForAllowedChildren (str ''dl'') (map str [''dt'', ''dd'', ''script'', ''template''])
       (str ''<dl> solo puede contener pares <dt>/<dd> como hijos directos.'')
       [str ''Usa <dt> para t'' @ [0xE9] @ str ''rminos y <dd> para descripciones.''] DEFAULT_REFS
   @ generateRulesForAllowedChildren (str ''select'')
       (map str [''option'', ''optgroup'', ''hr'', ''script'', ''template''])
       (str ''<select> solo admite <option> y <optgroup> como contenido principal.'')
       [str ''Reemplaza este elemento por <option> u <optgroup>.''] DEFAULT_REFS
   @ generateRulesForAllowedChildren (str ''optgroup'') (map str [''option'', ''script'', ''template''])
       (str ''<optgroup> solo puede contener elementos <option>.'')
       [str ''Mueve este nodo fuera del <optgroup> o convi'' @ [0xE9] @ str ''rtelo en <option>.''] DEFAULT_REFS
   @ generateRulesForAllowedChildren (str ''picture'')
       (map str [''source'', ''img'', ''script'', ''template''])
       (str ''<picture> solo puede contener <source> y un <img> de fallback.'')
       [str ''Usa <source> para variantes y <img> como fallback.''] DEFAULT_REFS
   @ concat (map (\<lambda>p.
        generateRulesForAllowedChildren p PHRASING_CONTENT_TAGS
          (str ''<'' @ p @ str ''> solo puede contener phrasing content (contenido inline).'')
          [str ''Mueve elementos de bloque fuera del contenedor o usa un wrapper de bloque.''] DEFAULT_REFS)
        (map str [''p'', ''summary'', ''dt'', ''legend'', ''h1'', ''h2'', ''h3'', ''h4'', ''h5'', ''h6'']))
   @ map (\<lambda>c. makeRule (str ''a'') c
            (str ''<a> no debe contener elementos interactivos anidados.'')
            [str ''Usa un '' @ [0xFA] @ str ''nico elemento interactivo por control de UI.''] DEFAULT_REFS)
        (map str [''a'', ''button'', ''input'', ''select'', ''textarea'', ''label'', ''details''])
   @ map (\<lambda>c. makeRule (str ''button'') c
            (str ''<button> no debe contener elementos interactivos anidados.'')
            [str ''Usa controles separados o reestructura la interacci'' @ [0xF3] @ str ''n.''] DEFAULT_REFS)
        (map str [''a'', ''button'', ''input'', ''select'', ''textarea'', ''label'', ''details'', ''form''])
   @ [makeRule (str ''form'') (str ''form'')
        (str ''No puedes anidar un <form> dentro de otro <form>.'')
        [str ''Usa un '' @ [0xFA] @ str ''nico formulario y agrupa secciones con <fieldset>.''] DEFAULT_REFS]
   @ [makeRule (str ''label'') (str ''label'')
        (str ''No puedes anidar un <label> dentro de otro <label>.'')
        [str ''Usa etiquetas separadas para cada control de formulario.''] DEFAULT_REFS]"

text \<open>Only rules whose two tags are in the catalogue are kept.\<close>

definition generateAutomaticRules :: "NestingRule list" where
  "generateAutomaticRules =
     filter (\<lambda>rule. parent rule \<in> HTML_TAGS_SET \<and> child rule \<in> HTML_TAGS_SET) autoRules"

definition GENERATED_NESTING_RULES :: "NestingRule list" where
  "GENERATED_NESTING_RULES = generateAutomaticRules"

definition NESTING_RULES_COMPLETE :: "NestingRule list" where
  "NESTING_RULES_COMPLETE = NESTING_RULES @ GENERATED_NESTING_RULES"

text \<open>
  \<open>buildRulesMap\<close> walks the list from its first rule to its last and stores each rule
  under the key \<open>parent::child\<close>; \<open>Map.set\<close> replaces what an earlier rule stored
  under the same key.
\<close>

definition ruleKey :: "jsstring \<Rightarrow> jsstring \<Rightarrow> jsstring" where
  "ruleKey p c = p @ str ''::'' @ c"

definition buildRulesMap :: "NestingRule list \<Rightarrow> (jsstring \<rightharpoonup> NestingRule)" where
  "buildRulesMap rules =
     foldl (\<lambda>m rule. m(ruleKey (parent rule) (child rule) \<mapsto> rule)) Map.empty rules"

definition RULES_MAP :: "jsstring \<rightharpoonup> NestingRule" where
  "RULES_MAP = buildRulesMap NESTING_RULES_COMPLETE"

section \<open>parser.ts: regions, tokens and the nesting check\<close>

definition VOID_ELEMENTS :: "jsstring list" where
  "VOID_ELEMENTS = map str
    [''area'', ''base'', ''br'', ''col'', ''embed'', ''hr'', ''img'', ''input'',
     ''link'', ''meta'', ''param'', ''source'', ''track'', ''wbr'']"

definition SKIP_CONTENT_TAGS :: "jsstring list" where
  "SKIP_CONTENT_TAGS = map str [''script'', ''style'', ''template'']"

subsection \<open>The three regular expressions\<close>

text \<open>\<open>[a-zA-Z]\<close>, \<open>[a-zA-Z0-9-]\<close> and \<open>\s\<close> (white space and line terminators).\<close>

definition isLetter :: "jschar \<Rightarrow> bool" where
  "isLetter c \<longleftrightarrow> (0x41 \<le> c \<and> c \<le> 0x5A) \<or> (0x61 \<le> c \<and> c \<le> 0x7A)"

definition isNameChar :: "jschar \<Rightarrow> bool" where
  "isNameChar c \<longleftrightarrow> isLetter c \<or> (0x30 \<le> c \<and> c \<le> 0x39) \<or> c = 0x2D"

definition isSpace :: "jschar \<Rightarrow> bool" where
  "isSpace c \<longleftrightarrow>
     c = 0x09 \<or> c = 0x0A \<or> c = 0x0B \<or> c = 0x0C \<or> c = 0x0D \<or> c = 0x20 \<or> c = 0xA0 \<or>
     c = 0x1680 \<or> (0x2000 \<le> c \<and> c \<le> 0x200A) \<or> c = 0x2028 \<or> c = 0x2029 \<or>
     c = 0x202F \<or> c = 0x205F \<or> c = 0x3000 \<or> c = 0xFEFF"

text \<open>\<^verbatim>\<open>/<\/?([a-zA-Z][a-zA-Z0-9-]*)\s*(?:[^>]*)?(\/?)>/g\<close>\<close>

definition tagRegex :: regex where
  "tagRegex =
     Seq (Chr (\<lambda>c. c = 0x3C))
    (Seq (Opt (Chr (\<lambda>c. c = 0x2F)))
    (Seq (Group 1 (Seq (Chr isLetter) (Star (Chr isNameChar))))
    (Seq (Star (Chr isSpace))
    (Seq (Opt (Star (Chr (\<lambda>c. c \<noteq> 0x3E))))
    (Seq (Group 2 (Opt (Chr (\<lambda>c. c = 0x2F))))
         (Chr (\<lambda>c. c = 0x3E)))))))"

text \<open>\<^verbatim>\<open>/\breturn\s*\(\s*/g\<close>\<close>

definition returnRegex :: regex where
  "returnRegex =
     Seq WordB (lit (str ''return'')
       (Seq (Star (Chr isSpace)) (Seq (Chr (\<lambda>c. c = 0x28)) (Star (Chr isSpace)))))"

text \<open>\<^verbatim>\<open>/<template[^>]*>([\s\S]*?)<\/template>/i\<close>\<close>

definition templateRegex :: regex where
  "templateRegex =
     liti (str ''<template'')
       (Seq (Star (Chr (\<lambda>c. c \<noteq> 0x3E)))
       (Seq (Chr (\<lambda>c. c = 0x3E))
       (Seq (Group 1 (LazyStar (Chr (\<lambda>c. True))))
            (liti (str ''</template'') (Chr (\<lambda>c. c = 0x3E))))))"

subsection \<open>Markup regions\<close>

record MarkupRegion =
  region_text :: jsstring
  baseOffset :: int

text \<open>
  The scan for the parenthesis that closes \<open>return (\<close>: the inner \<open>while\<close> loop of
  \<open>extractJsxRegions\<close>, which returns the final \<open>i\<close>.
\<close>

function parenLoop :: "jsstring \<Rightarrow> nat \<Rightarrow> int \<Rightarrow> nat" where
  "parenLoop content i depth =
     (if i < length content \<and> depth > 0
      then parenLoop content (Suc i)
             (if content ! i = 0x28 then depth + 1
              else if content ! i = 0x29 then depth - 1 else depth)
      else i)"
  by pat_completeness auto
termination
  by (relation "measure (\<lambda>(content, i, depth). length content - i)") auto

text \<open>
  The outer loop \<open>while ((match = returnRegex.exec(content)) !== null)\<close>. The regex
  has the \<open>g\<close> flag, so each \<open>exec\<close> starts at \<open>lastIndex\<close>, the end of the previous
  match. The loop is not bounded by its form, so the model is partial: \<open>None\<close> is
  a loop that never ends.
\<close>

partial_function (option) jsxLoop ::
  "jsstring \<Rightarrow> nat \<Rightarrow> MarkupRegion list \<Rightarrow> MarkupRegion list option" where
  "jsxLoop content lastIndex regions =
     (case rsearch returnRegex content lastIndex of
        None \<Rightarrow> Some regions
      | Some m \<Rightarrow>
          (let start = index m + length (matched content m);
               ltIdx = indexOf content 0x3C start
           in if ltIdx = - 1 then jsxLoop content (mend m) regions
              else (let i = parenLoop content start 1;
                        end = int i - 1
                    in jsxLoop content (mend m)
                         (regions @ [\<lparr>region_text = slice content ltIdx end,
                                      baseOffset = ltIdx\<rparr>]))))"

definition extractJsxRegions :: "jsstring \<Rightarrow> MarkupRegion list option" where
  "extractJsxRegions content =
     (case jsxLoop content 0 [] of
        None \<Rightarrow> None
      | Some regions \<Rightarrow>
          Some (if length regions = 0 then [\<lparr>region_text = content, baseOffset = 0\<rparr>]
                else regions))"

text \<open>
  \<open>extractTemplateRegion\<close>. The regex has no \<open>g\<close> flag: \<open>exec\<close> starts at 0. Group 1
  always takes part in a match; were it \<open>undefined\<close>, the tokenizer's \<open>exec\<close> would
  read it as the string \<open>undefined\<close>.
\<close>

definition extractTemplateRegion :: "jsstring \<Rightarrow> MarkupRegion list" where
  "extractTemplateRegion content =
     (case rsearch templateRegex content 0 of
        Some m \<Rightarrow>
          (let offset = int (index m) + indexOf (matched content m) 0x3E 0 + 1
           in [\<lparr>region_text = (case group content m 1 of Some g \<Rightarrow> g | None \<Rightarrow> str ''undefined''),
                 baseOffset = offset\<rparr>])
      | None \<Rightarrow> [\<lparr>region_text = content, baseOffset = 0\<rparr>])"

definition extractMarkupRegions :: "jsstring \<Rightarrow> jsstring \<Rightarrow> MarkupRegion list option" where
  "extractMarkupRegions content languageId =
     (if languageId = str ''html'' then Some [\<lparr>region_text = content, baseOffset = 0\<rparr>]
      else if languageId = str ''javascriptreact'' \<or> languageId = str ''typescriptreact''
        then extractJsxRegions content
      else if languageId = str ''vue'' \<or> languageId = str ''svelte''
        then Some (extractTemplateRegion content)
      else if languageId = str ''html-angular''
        then Some [\<lparr>region_text = content, baseOffset = 0\<rparr>]
      else Some [\<lparr>region_text = content, baseOffset = 0\<rparr>])"

subsection \<open>The tokenizer\<close>

datatype TokenType = Open | Close | SelfClosing

record Token =
  tok_type :: TokenType
  tok_name :: jsstring
  tok_offset :: nat
  tok_length :: nat

text \<open>What a JavaScript exception would be: reading a property of \<open>undefined\<close>.\<close>

datatype error = TypeError

text \<open>
  The body of the loop of \<open>tokenizeTags\<close> for one match, on the pair of \<open>skipUntil\<close>
  (\<open>None\<close> is \<open>null\<close>) and \<open>tokens\<close>. \<open>if (skipUntil)\<close> is false for \<open>null\<close> and for
  the empty string. \<open>match[1].toLowerCase()\<close> throws when group 1 is \<open>undefined\<close>.
\<close>

definition tokenizeStep ::
  "jsstring \<Rightarrow> RegExpMatch \<Rightarrow> jsstring option \<times> Token list
     \<Rightarrow> error + (jsstring option \<times> Token list)" where
  "tokenizeStep text m st =
     (case st of (skipUntil, tokens) \<Rightarrow>
      (case group text m 1 of
         None \<Rightarrow> Inl TypeError
       | Some g1 \<Rightarrow>
          (let full = matched text m;
               name = toLowerCase g1;
               selfClose = (group text m 2 = Some (str ''/'') \<or> endsWith full (str ''/>''));
               isClose = startsWith full (str ''</'')
           in if skipUntil \<noteq> None \<and> skipUntil \<noteq> Some []
              then (if isClose \<and> Some name = skipUntil then Inr (None, tokens)
                    else Inr (skipUntil, tokens))
              else if \<not> isClose \<and> name \<in> set SKIP_CONTENT_TAGS
              then Inr (Some name, tokens)
              else Inr (skipUntil,
                        tokens @
                        [\<lparr>tok_type = (if isClose then Close
                                       else if selfClose \<or> name \<in> set VOID_ELEMENTS
                                       then SelfClosing else Open),
                          tok_name = name,
                          tok_offset = index m,
                          tok_length = length full\<rparr>]))))"

text \<open>
  \<open>while ((match = tagRegex.exec(text)) !== null)\<close>, again with the \<open>g\<close> flag and
  again partial by its form.
\<close>

partial_function (option) tokenizeLoop ::
  "jsstring \<Rightarrow> nat \<Rightarrow> jsstring option \<times> Token list \<Rightarrow> (error + Token list) option" where
  "tokenizeLoop text lastIndex st =
     (case rsearch tagRegex text lastIndex of
        None \<Rightarrow> Some (Inr (snd st))
      | Some m \<Rightarrow>
          (case tokenizeStep text m st of
             Inl e \<Rightarrow> Some (Inl e)
           | Inr st' \<Rightarrow> tokenizeLoop text (mend m) st'))"

definition tokenizeTags :: "jsstring \<Rightarrow> (error + Token list) option" where
  "tokenizeTags text = tokenizeLoop text 0 (None, [])"

subsection \<open>The nesting check\<close>

record ParentFrame =
  frame_name :: jsstring
  frame_offset :: nat

record NestingError =
  err_parent :: jsstring
  err_child :: jsstring
  err_offset :: nat
  err_length :: nat
  err_rule :: NestingRule

text \<open>
  The stack is the array of the source: \<open>push\<close> appends, the top is the last element.
  \<open>closeLoop stack n k\<close> is the loop \<open>for (let i = stack.length - 1; i >= 0; i--)\<close>
  with \<open>i = k - 1\<close>: \<open>stack.splice(i)\<close> keeps the first \<open>i\<close> frames. Reading
  \<open>stack[i].name\<close> beyond the array would throw.
\<close>

fun closeLoop :: "ParentFrame list \<Rightarrow> jsstring \<Rightarrow> nat \<Rightarrow> error + ParentFrame list" where
  "closeLoop stack n 0 = Inr stack"
| "closeLoop stack n (Suc i) =
     (if i < length stack
      then (if frame_name (stack ! i) = n then Inr (take i stack) else closeLoop stack n i)
      else Inl TypeError)"

text \<open>The body of the loop of \<open>findNestingErrors\<close> for one token, on \<open>(errors, stack)\<close>.\<close>

definition findStep ::
  "NestingError list \<times> ParentFrame list \<Rightarrow> Token
     \<Rightarrow> error + (NestingError list \<times> ParentFrame list)" where
  "findStep st token =
     (case st of (errors, stack) \<Rightarrow>
      (case tok_type token of
         Open \<Rightarrow>
           (let errors' =
                  (if length stack > 0
                   then (let p = frame_name (stack ! (length stack - 1));
                             key = ruleKey p (tok_name token)
                         in case RULES_MAP key of
                              Some rule \<Rightarrow>
                                errors @ [\<lparr>err_parent = p, err_child = tok_name token,
                                           err_offset = tok_offset token,
                                           err_length = tok_length token,
                                           err_rule = rule\<rparr>]
                            | None \<Rightarrow> errors)
                   else errors)
            in Inr (errors',
                    stack @ [\<lparr>frame_name = tok_name token, frame_offset = tok_offset token\<rparr>]))
       | Close \<Rightarrow>
           (case closeLoop stack (tok_name token) (length stack) of
              Inl e \<Rightarrow> Inl e
            | Inr stack' \<Rightarrow> Inr (errors, stack'))
       | SelfClosing \<Rightarrow> Inr (errors, stack)))"

fun findLoop ::
  "NestingError list \<times> ParentFrame list \<Rightarrow> Token list
     \<Rightarrow> error + (NestingError list \<times> ParentFrame list)" where
  "findLoop st [] = Inr st"
| "findLoop st (token # tokens) =
     (case findStep st token of Inl e \<Rightarrow> Inl e | Inr st' \<Rightarrow> findLoop st' tokens)"

definition findNestingErrors :: "Token list \<Rightarrow> error + NestingError list" where
  "findNestingErrors tokens =
     (case findLoop ([], []) tokens of Inl e \<Rightarrow> Inl e | Inr (errors, stack) \<Rightarrow> Inr errors)"

subsection \<open>analyzeDocument\<close>

record DocumentError = NestingError +
  absoluteOffset :: int

definition withAbsoluteOffset :: "MarkupRegion \<Rightarrow> NestingError \<Rightarrow> DocumentError" where
  "withAbsoluteOffset region err =
     NestingError.extend err
       (DocumentError.fields (int (err_offset err) + baseOffset region))"

fun analyzeRegions ::
  "MarkupRegion list \<Rightarrow> DocumentError list \<Rightarrow> (error + DocumentError list) option" where
  "analyzeRegions [] allErrors = Some (Inr allErrors)"
| "analyzeRegions (region # regions) allErrors =
     (case tokenizeTags (region_text region) of
        None \<Rightarrow> None
      | Some (Inl e) \<Rightarrow> Some (Inl e)
      | Some (Inr tokens) \<Rightarrow>
          (case findNestingErrors tokens of
             Inl e \<Rightarrow> Some (Inl e)
           | Inr errors \<Rightarrow>
               analyzeRegions regions (allErrors @ map (withAbsoluteOffset region) errors)))"

text \<open>
  The result of \<open>analyzeDocument\<close>: \<open>None\<close> if a loop never ends, \<open>Some (Inl e)\<close> if an
  exception is thrown, \<open>Some (Inr errors)\<close> if the list \<open>errors\<close> is returned.
\<close>

definition analyzeDocument :: "jsstring \<Rightarrow> jsstring \<Rightarrow> (error + DocumentError list) option" where
  "analyzeDocument content languageId =
     (case extractMarkupRegions content languageId of
        None \<Rightarrow> None
      | Some regions \<Rightarrow> analyzeRegions regions [])"

section \<open>Auxiliary notions for the proofs\<close>

text \<open>
  \<open>run P s i\<close> is the length of the longest run of code units satisfying \<open>P\<close> that
  starts at position \<open>i\<close>; \<open>gtIdx s j\<close> is the position of the first \<open>>\<close> at or after
  \<open>j\<close> (the length of \<open>s\<close> if there is none); \<open>firstOf\<close> is the head of a list of
  matcher states, if any. \<open>tagAt s i\<close> describes directly the match of the tag regex
  that starts at position \<open>i\<close>: its end and its two groups. It is proved below to be
  what the matcher computes.
\<close>

definition run :: "(jschar \<Rightarrow> bool) \<Rightarrow> jsstring \<Rightarrow> nat \<Rightarrow> nat" where
  "run P s i = length (takeWhile P (drop i s))"

definition gtIdx :: "jsstring \<Rightarrow> nat \<Rightarrow> nat" where
  "gtIdx s j = j + run (\<lambda>c. c \<noteq> 0x3E) s j"

definition tagAt :: "jsstring \<Rightarrow> nat \<Rightarrow> mstate option" where
  "tagAt s i =
     (if i < length s \<and> s ! i = 0x3C
      then (let p = (if Suc i < length s \<and> s ! Suc i = 0x2F then i + 2 else i + 1)
            in if p < length s \<and> isLetter (s ! p)
               then (let q = Suc p + run isNameChar s (Suc p); g = gtIdx s p
                     in if g < length s then Some (Suc g, [1 \<mapsto> (p, q), 2 \<mapsto> (g, g)])
                        else None)
               else None)
      else None)"

definition firstOf :: "'a list \<Rightarrow> 'a option" where
  "firstOf xs = (case xs of [] \<Rightarrow> None | x # _ \<Rightarrow> Some x)"

text \<open>The tag regex, from its last part to the whole.\<close>

abbreviation (input) tailRegex :: regex where
  "tailRegex \<equiv> Seq (Group 2 (Opt (Chr (\<lambda>c. c = 0x2F)))) (Chr (\<lambda>c. c = 0x3E))"

abbreviation (input) attrRegex :: regex where
  "attrRegex \<equiv> Seq (Opt (Star (Chr (\<lambda>c. c \<noteq> 0x3E)))) tailRegex"

abbreviation (input) wsRegex :: regex where
  "wsRegex \<equiv> Seq (Star (Chr isSpace)) attrRegex"

abbreviation (input) nameRegex :: regex where
  "nameRegex \<equiv> Seq (Group 1 (Seq (Chr isLetter) (Star (Chr isNameChar)))) wsRegex"

definition keyOf :: "NestingRule \<Rightarrow> jsstring" where
  "keyOf rule = ruleKey (parent rule) (child rule)"

definition strictParents :: "jsstring list" where
  "strictParents = map str
     [''html'', ''head'', ''table'', ''colgroup'', ''thead'', ''tbody'', ''tfoot'', ''tr'',
      ''ul'', ''ol'', ''menu'', ''dl'', ''select'', ''optgroup'', ''picture'',
      ''p'', ''summary'', ''dt'', ''legend'', ''h1'', ''h2'', ''h3'', ''h4'', ''h5'', ''h6'',
      ''a'', ''button'', ''form'', ''label'']"

definition explicitPairs :: "(jsstring \<times> jsstring) list" where
  "explicitPairs = map (\<lambda>(p, c). (str p, str c))
       [(''p'', ''div''), (''p'', ''h1''), (''p'', ''h2''), (''p'', ''h3''),
        (''p'', ''h4''), (''p'', ''h5''), (''p'', ''h6''), (''p'', ''ul''),
        (''p'', ''ol''), (''p'', ''table''), (''p'', ''form''),
        (''p'', ''blockquote''), (''p'', ''pre''), (''p'', ''section''),
        (''p'', ''article''), (''p'', ''aside''), (''p'', ''figure''),
        (''p'', ''footer''), (''p'', ''header''), (''p'', ''nav''), (''p'', ''main''),
        (''a'', ''a''), (''a'', ''button''), (''a'', ''input''), (''a'', ''select''),
        (''a'', ''textarea''), (''button'', ''a''), (''button'', ''button''),
        (''button'', ''input''), (''table'', ''div''), (''table'', ''p''),
        (''tr'', ''div''), (''tr'', ''p''), (''tr'', ''span''), (''tr'', ''a''),
        (''ul'', ''div''), (''ul'', ''p''), (''ul'', ''span''), (''ul'', ''a''),
        (''ol'', ''div''), (''ol'', ''p''), (''head'', ''div''), (''head'', ''p''),
        (''form'', ''form''), (''h1'', ''h1''), (''h1'', ''h2''), (''h2'', ''h1''),
        (''label'', ''label''), (''select'', ''div''), (''select'', ''span''),
        (''figcaption'', ''figcaption''), (''summary'', ''div''), (''dt'', ''div''),
        (''caption'', ''table'')]"

definition noColon :: "jsstring \<Rightarrow> bool" where
  "noColon t \<longleftrightarrow> 0x3A \<notin> set t"

definition phrasingReason :: "jsstring \<Rightarrow> jsstring" where
  "phrasingReason p = str ''<'' @ p @ str ''> solo puede contener phrasing content (contenido inline).''"

definition phrasingAlternatives :: "jsstring list" where
  "phrasingAlternatives = [str ''Mueve elementos de bloque fuera del contenedor o usa un wrapper de bloque.'']"

definition isLower :: "jschar \<Rightarrow> bool" where
  "isLower c \<longleftrightarrow> 0x61 \<le> c \<and> c \<le> 0x7A"

definition isLowerNameChar :: "jschar \<Rightarrow> bool" where
  "isLowerNameChar c \<longleftrightarrow> isLower c \<or> (0x30 \<le> c \<and> c \<le> 0x39) \<or> c = 0x2D"

definition tagName :: "jsstring \<Rightarrow> bool" where
  "tagName t \<longleftrightarrow> t \<noteq> [] \<and> isLower (hd t) \<and> list_all isLowerNameChar (tl t)"

definition afterOpenTag ::
  "jsstring \<Rightarrow> bool \<Rightarrow> nat \<Rightarrow> nat \<Rightarrow> jsstring option \<times> Token list
     \<Rightarrow> jsstring option \<times> Token list" where
  "afterOpenTag N selfClose offset len st =
     (case st of (skip, toks) \<Rightarrow>
        if skip \<noteq> None \<and> skip \<noteq> Some [] then (skip, toks)
        else if N \<in> set SKIP_CONTENT_TAGS then (Some N, toks)
        else (skip, toks @
              [\<lparr>tok_type = (if selfClose \<or> N \<in> set VOID_ELEMENTS then SelfClosing else Open),
                tok_name = N, tok_offset = offset, tok_length = len\<rparr>]))"

definition afterCloseTag ::
  "jsstring \<Rightarrow> nat \<Rightarrow> nat \<Rightarrow> jsstring option \<times> Token list
     \<Rightarrow> jsstring option \<times> Token list" where
  "afterCloseTag N offset len st =
     (case st of (skip, toks) \<Rightarrow>
        if skip \<noteq> None \<and> skip \<noteq> Some []
        then (if Some N = skip then (None, toks) else (skip, toks))
        else (skip, toks @
              [\<lparr>tok_type = Close, tok_name = N, tok_offset = offset, tok_length = len\<rparr>]))"

definition openTag :: "jsstring \<Rightarrow> jsstring" where
  "openTag N = 0x3C # N @ [0x3E]"

definition closeTag :: "jsstring \<Rightarrow> jsstring" where
  "closeTag N = 0x3C # 0x2F # N @ [0x3E]"

definition selfClosingTag :: "jsstring \<Rightarrow> jsstring" where
  "selfClosingTag N = 0x3C # N @ [0x2F, 0x3E]"

definition nestedDoc :: "jsstring \<Rightarrow> jsstring \<Rightarrow> jsstring" where
  "nestedDoc P C = str ''<'' @ P @ str ''><'' @ C @ str ''></'' @ C @ str ''></'' @ P @ str ''>''"

definition closesTag :: "jsstring \<Rightarrow> RegExpMatch \<Rightarrow> jsstring \<Rightarrow> bool" where
  "closesTag text m u \<longleftrightarrow>
     startsWith (matched text m) (str ''</'') \<and> map_option toLowerCase (group text m 1) = Some u"

text \<open>
  The equations of the matcher and of the search are unfolded by hand in the proofs;
  the two partial loops get their defining equations as code equations.
\<close>

declare rmatch.simps [simp del]
declare rsearch.simps [simp del]
declare tokenizeLoop.simps [code]
declare jsxLoop.simps [code]

section \<open>Properties of the matcher\<close>

lemma firstOf_simps [simp]: "firstOf [] = None" "firstOf (x # xs) = Some x"
  by (simp_all add: firstOf_def)

lemma firstOf_append: "firstOf (xs @ ys) = (case firstOf xs of None \<Rightarrow> firstOf ys | Some x \<Rightarrow> Some x)"
  by (cases xs) simp_all

lemma concat_map_empty: "(\<And>x. x \<in> set xs \<Longrightarrow> f x = []) \<Longrightarrow> concat (map f xs) = []"
  by (induction xs) simp_all

lemma firstOf_concat_hit: "f x \<noteq> [] \<Longrightarrow> firstOf (concat (map f (x # xs))) = firstOf (f x)"
  by (cases "f x") simp_all

lemma run_unfold: "run P s i = (if i < length s \<and> P (s ! i) then Suc (run P s (Suc i)) else 0)"
proof (cases "i < length s")
  case True
  then have "drop i s = s ! i # drop (Suc i) s" by (simp add: Cons_nth_drop_Suc)
  then show ?thesis using True by (simp add: run_def)
next
  case False
  then show ?thesis by (simp add: run_def)
qed

lemma run_le: "i \<le> length s \<Longrightarrow> i + run P s i \<le> length s"
proof -
  have "length (takeWhile P (drop i s)) \<le> length (drop i s)" by (rule length_takeWhile_le)
  then show "i \<le> length s \<Longrightarrow> i + run P s i \<le> length s" by (simp add: run_def)
qed

lemma run_holds: "k < run P s i \<Longrightarrow> P (s ! (i + k))"
proof -
  assume k: "k < run P s i"
  then have "takeWhile P (drop i s) ! k = drop i s ! k" by (simp add: run_def takeWhile_nth)
  moreover have "P (takeWhile P (drop i s) ! k)"
    using k by (metis nth_mem run_def set_takeWhileD)
  moreover have "i + k < length s"
    using k length_takeWhile_le [of P "drop i s"] by (simp add: run_def)
  ultimately show ?thesis by simp
qed

lemma run_stops: "i + run P s i < length s \<Longrightarrow> \<not> P (s ! (i + run P s i))"
proof -
  assume a: "i + run P s i < length s"
  then have "run P s i < length (drop i s)" by simp
  then have "\<not> P (drop i s ! run P s i)" unfolding run_def by (rule nth_length_takeWhile)
  then show ?thesis using a by simp
qed

lemma run_between: "i \<le> k \<Longrightarrow> k < i + run P s i \<Longrightarrow> P (s ! k)"
  using run_holds [of "k - i" P s i] by simp

lemmas rmatch_Star = rmatch.simps(3)
lemmas rmatch_LazyStar = rmatch.simps(4)
lemma rmatch_Star_Chr_step:
  "rmatch (Star (Chr P)) s (i, c) =
     (if i < length s \<and> P (s ! i) then rmatch (Star (Chr P)) s (Suc i, c) @ [(i, c)] else [(i, c)])"
proof (cases "i < length s \<and> P (s ! i)")
  case True
  then show ?thesis by (subst rmatch_Star) (simp add: rmatch.simps(1))
next
  case False
  then show ?thesis by (subst rmatch_Star) (auto simp: rmatch.simps(1))
qed

lemma rmatch_Star_Chr:
  "rmatch (Star (Chr P)) s (i, c) = map (\<lambda>j. (j, c)) (rev [i ..< Suc (i + run P s i)])"
proof (induction "length s - i" arbitrary: i)
  case 0
  then have "run P s i = 0" by (subst run_unfold) simp
  then show ?case using 0 by (subst rmatch_Star_Chr_step) simp
next
  case (Suc n)
  show ?case
  proof (cases "i < length s \<and> P (s ! i)")
    case True
    have ih: "rmatch (Star (Chr P)) s (Suc i, c)
                = map (\<lambda>j. (j, c)) (rev [Suc i ..< Suc (Suc i + run P s (Suc i))])"
      using Suc by simp
    have r: "run P s i = Suc (run P s (Suc i))" using True by (subst run_unfold) simp
    show ?thesis using True ih r by (subst rmatch_Star_Chr_step) (simp add: upt_conv_Cons)
  next
    case False
    then have "run P s i = 0" by (subst run_unfold) simp
    then show ?thesis using False by (subst rmatch_Star_Chr_step) auto
  qed
qed

lemma rmatch_Star_Chr_head:
  "\<exists>rest. rmatch (Star (Chr P)) s (i, c) = (i + run P s i, c) # rest \<and>
          (\<forall>st \<in> set rest. snd st = c \<and> i \<le> fst st \<and> fst st < i + run P s i)"
  by (auto simp: rmatch_Star_Chr)

subsection \<open>The tag regex\<close>

lemma gtIdx_unfold: "gtIdx s j = (if j < length s \<and> s ! j \<noteq> 0x3E then gtIdx s (Suc j) else j)"
  unfolding gtIdx_def by (subst run_unfold) simp

lemma gtIdx_ge: "j \<le> gtIdx s j"
  by (simp add: gtIdx_def)

lemma gtIdx_le: "j \<le> length s \<Longrightarrow> gtIdx s j \<le> length s"
  unfolding gtIdx_def by (rule run_le)

lemma gtIdx_at: "gtIdx s j < length s \<Longrightarrow> s ! gtIdx s j = 0x3E"
  using run_stops [of j "\<lambda>c. c \<noteq> 0x3E" s] by (simp add: gtIdx_def)

lemma gtIdx_before: "j \<le> k \<Longrightarrow> k < gtIdx s j \<Longrightarrow> s ! k \<noteq> 0x3E"
  using run_between [of j k "\<lambda>c. c \<noteq> 0x3E" s] by (simp add: gtIdx_def)

lemma gtIdx_skip:
  "j \<le> w \<Longrightarrow> w \<le> length s \<Longrightarrow> (\<And>k. j \<le> k \<Longrightarrow> k < w \<Longrightarrow> s ! k \<noteq> 0x3E)
     \<Longrightarrow> gtIdx s j = gtIdx s w"
proof (induction "w - j" arbitrary: j)
  case 0
  then show ?case by simp
next
  case (Suc n)
  then have "j < w" by simp
  then have "j < length s" "s ! j \<noteq> 0x3E" using Suc.prems by auto
  then have "gtIdx s j = gtIdx s (Suc j)" by (subst gtIdx_unfold) simp
  moreover have "gtIdx s (Suc j) = gtIdx s w"
    using Suc by (intro Suc.hyps(1)) auto
  ultimately show ?case by simp
qed

lemma tail_hit:
  "j < length s \<Longrightarrow> s ! j = 0x3E \<Longrightarrow> rmatch tailRegex s (j, c) = [(Suc j, c(2 \<mapsto> (j, j)))]"
  by (simp add: rmatch.simps(1,2,5,6))

lemma tail_miss:
  "(j < length s \<Longrightarrow> s ! j \<noteq> 0x3E) \<Longrightarrow> (Suc j < length s \<Longrightarrow> s ! Suc j \<noteq> 0x3E)
     \<Longrightarrow> rmatch tailRegex s (j, c) = []"
  by (auto simp: rmatch.simps(1,2,5,6))

lemma attr_first:
  assumes "j \<le> length s"
  shows "if gtIdx s j < length s
         then firstOf (rmatch attrRegex s (j, c)) = Some (Suc (gtIdx s j), c(2 \<mapsto> (gtIdx s j, gtIdx s j)))
         else rmatch attrRegex s (j, c) = []"
proof -
  let ?g = "gtIdx s j"
  obtain rest where star: "rmatch (Star (Chr (\<lambda>c. c \<noteq> 0x3E))) s (j, c) = (?g, c) # rest"
    and rest: "\<forall>st \<in> set rest. snd st = c \<and> j \<le> fst st \<and> fst st < ?g"
    using rmatch_Star_Chr_head [of "\<lambda>c. c \<noteq> 0x3E" s j c] by (auto simp: gtIdx_def)
  define cands where "cands = filter (\<lambda>st'. fst st' \<noteq> j) ((?g, c) # rest) @ [(j, c)]"
  have opt: "rmatch (Opt (Star (Chr (\<lambda>c. c \<noteq> 0x3E)))) s (j, c) = cands"
    by (simp only: rmatch.simps(5) star cands_def)
  have whole: "rmatch attrRegex s (j, c) = concat (map (rmatch tailRegex s) cands)"
    by (simp only: rmatch.simps(2) opt)
  have cands_range: "\<forall>st \<in> set cands. snd st = c \<and> j \<le> fst st \<and> fst st \<le> ?g"
    using rest gtIdx_ge [of j s] by (auto simp: cands_def)
  have hd_cands: "\<exists>more. cands = (?g, c) # more"
  proof (cases "?g = j")
    case True
    then have "rest = []" using rest by (cases rest) auto
    then show ?thesis using True by (simp add: cands_def)
  next
    case False
    then show ?thesis by (simp add: cands_def)
  qed
  show ?thesis
  proof (cases "?g < length s")
    case True
    then have hit: "rmatch tailRegex s (?g, c) = [(Suc ?g, c(2 \<mapsto> (?g, ?g)))]"
      using gtIdx_at [of s j] by (intro tail_hit) auto
    obtain more where more: "cands = (?g, c) # more" using hd_cands by blast
    have "rmatch tailRegex s (?g, c) \<noteq> []" by (simp only: hit) simp
    then have "firstOf (concat (map (rmatch tailRegex s) ((?g, c) # more)))
                 = firstOf (rmatch tailRegex s (?g, c))"
      by (rule firstOf_concat_hit)
    then show ?thesis using True by (simp only: whole more hit) simp
  next
    case False
    then have g: "?g = length s" using gtIdx_le [OF assms] by simp
    have "rmatch tailRegex s st = []" if "st \<in> set cands" for st
    proof -
      from cands_range that have "snd st = c \<and> j \<le> fst st \<and> fst st \<le> ?g" by blast
      then obtain k where st: "st = (k, c)" and k: "j \<le> k" "k \<le> ?g"
        by (cases st) auto
      have "s ! k \<noteq> 0x3E" if "k < length s" using gtIdx_before [of j k s] k that g by simp
      moreover have "s ! Suc k \<noteq> 0x3E" if "Suc k < length s"
        using gtIdx_before [of j "Suc k" s] k that g by simp
      ultimately show ?thesis unfolding st by (intro tail_miss) auto
    qed
    then have "concat (map (rmatch tailRegex s) cands) = []" by (rule concat_map_empty)
    then show ?thesis using False whole by simp
  qed
qed

lemma firstOf_None_iff: "firstOf xs = None \<longleftrightarrow> xs = []"
  by (cases xs) simp_all

lemma seq_first:
  assumes "rmatch r1 s st = x # xs"
    and "rmatch r2 s x \<noteq> [] \<or> (\<forall>y \<in> set xs. rmatch r2 s y = [])"
  shows "firstOf (rmatch (Seq r1 r2) s st) = firstOf (rmatch r2 s x)"
proof (cases "rmatch r2 s x = []")
  case True
  then have "\<forall>y \<in> set (x # xs). rmatch r2 s y = []" using assms(2) by simp
  then have "concat (map (rmatch r2 s) (x # xs)) = []" by (intro concat_map_empty) blast
  then have "rmatch (Seq r1 r2) s st = []" by (simp only: rmatch.simps(2) assms(1))
  then show ?thesis using True by simp
next
  case False
  then have "firstOf (concat (map (rmatch r2 s) (x # xs))) = firstOf (rmatch r2 s x)"
    by (rule firstOf_concat_hit)
  then show ?thesis using assms(1) by (simp only: rmatch.simps(2))
qed

lemma attr_first':
  "j \<le> length s \<Longrightarrow>
   firstOf (rmatch attrRegex s (j, c)) =
     (if gtIdx s j < length s then Some (Suc (gtIdx s j), c(2 \<mapsto> (gtIdx s j, gtIdx s j))) else None)"
  using attr_first [of j s c] by (simp split: if_splits)

lemma isSpace_not_gt: "isSpace x \<Longrightarrow> x \<noteq> 0x3E"
  by (auto simp: isSpace_def)

lemma isNameChar_not_gt: "isNameChar x \<Longrightarrow> x \<noteq> 0x3E"
  by (auto simp: isNameChar_def isLetter_def)

lemma isLetter_not_slash: "isLetter x \<Longrightarrow> x \<noteq> 0x2F"
  by (auto simp: isLetter_def)

lemma isLetter_isNameChar: "isLetter x \<Longrightarrow> isNameChar x"
  by (simp add: isNameChar_def)

lemma ws_first:
  assumes "j \<le> length s"
  shows "firstOf (rmatch wsRegex s (j, c)) =
     (if gtIdx s j < length s then Some (Suc (gtIdx s j), c(2 \<mapsto> (gtIdx s j, gtIdx s j))) else None)"
proof -
  let ?w = "j + run isSpace s j"
  obtain rest where star: "rmatch (Star (Chr isSpace)) s (j, c) = (?w, c) # rest"
    and rest: "\<forall>st \<in> set rest. snd st = c \<and> j \<le> fst st \<and> fst st < ?w"
    using rmatch_Star_Chr_head [of isSpace s j c] by auto
  have w: "?w \<le> length s" using assms by (rule run_le)
  have same: "gtIdx s j = gtIdx s k" if "j \<le> k" "k \<le> ?w" for k
  proof (rule gtIdx_skip)
    show "j \<le> k" by fact
    show "k \<le> length s" using that w by simp
    show "s ! i \<noteq> 0x3E" if "j \<le> i" "i < k" for i
      using run_between [of j i isSpace s] that \<open>k \<le> ?w\<close> by (intro isSpace_not_gt) simp
  qed
  have at: "firstOf (rmatch attrRegex s (k, c)) =
      (if gtIdx s j < length s then Some (Suc (gtIdx s j), c(2 \<mapsto> (gtIdx s j, gtIdx s j))) else None)"
    if "j \<le> k" "k \<le> ?w" for k
    using attr_first' [of k s c] same [OF that] that w by simp
  have "rmatch attrRegex s (?w, c) \<noteq> [] \<or> (\<forall>y \<in> set rest. rmatch attrRegex s y = [])"
  proof (cases "gtIdx s j < length s")
    case True
    then have "firstOf (rmatch attrRegex s (?w, c)) \<noteq> None" using at [of ?w] by simp
    then show ?thesis by (simp only: firstOf_None_iff) simp
  next
    case False
    have "rmatch attrRegex s y = []" if "y \<in> set rest" for y
    proof -
      from rest that have "snd y = c \<and> j \<le> fst y \<and> fst y < ?w" by blast
      then obtain k where y: "y = (k, c)" and k: "j \<le> k" "k \<le> ?w" by (cases y) auto
      have "firstOf (rmatch attrRegex s (k, c)) = None" using at [OF k] False by simp
      then show ?thesis unfolding y by (simp only: firstOf_None_iff)
    qed
    then show ?thesis by blast
  qed
  with star have "firstOf (rmatch wsRegex s (j, c)) = firstOf (rmatch attrRegex s (?w, c))"
    by (rule seq_first)
  then show ?thesis using at [of ?w] by simp
qed

lemma name_first:
  "firstOf (rmatch nameRegex s (p, c)) =
     (if p < length s \<and> isLetter (s ! p)
      then (let q = Suc p + run isNameChar s (Suc p); g = gtIdx s p
            in if g < length s then Some (Suc g, c(1 \<mapsto> (p, q), 2 \<mapsto> (g, g))) else None)
      else None)"
proof (cases "p < length s \<and> isLetter (s ! p)")
  case False
  then have "rmatch (Group 1 (Seq (Chr isLetter) (Star (Chr isNameChar)))) s (p, c) = []"
    by (auto simp: rmatch.simps(1,2,6))
  then have "rmatch nameRegex s (p, c) = []" by (simp only: rmatch.simps(2)) simp
  then have "firstOf (rmatch nameRegex s (p, c)) = None" by (simp only: firstOf_simps)
  also have "None = (if p < length s \<and> isLetter (s ! p)
      then (let q = Suc p + run isNameChar s (Suc p); g = gtIdx s p
            in if g < length s then Some (Suc g, c(1 \<mapsto> (p, q), 2 \<mapsto> (g, g))) else None)
      else None)" using False by auto
  finally show ?thesis .
next
  case True
  let ?q = "Suc p + run isNameChar s (Suc p)"
  let ?g = "gtIdx s p"
  obtain rest where star: "rmatch (Star (Chr isNameChar)) s (Suc p, c) = (?q, c) # rest"
    and rest: "\<forall>st \<in> set rest. snd st = c \<and> Suc p \<le> fst st \<and> fst st < ?q"
    using rmatch_Star_Chr_head [of isNameChar s "Suc p" c] by auto
  define tag where "tag = (\<lambda>(j, c' :: captures). (j, c'(1 \<mapsto> (p, j))))"
  have grp: "rmatch (Group 1 (Seq (Chr isLetter) (Star (Chr isNameChar)))) s (p, c)
               = (?q, c(1 \<mapsto> (p, ?q))) # map tag rest"
    using True by (simp add: rmatch.simps(1,2,6) star tag_def)
  have q: "?q \<le> length s" using True by (intro run_le) simp
  have same: "gtIdx s p = gtIdx s k" if "Suc p \<le> k" "k \<le> ?q" for k
  proof (rule gtIdx_skip)
    show "p \<le> k" using that by simp
    show "k \<le> length s" using that q by simp
    show "s ! i \<noteq> 0x3E" if "p \<le> i" "i < k" for i
    proof (cases "i = p")
      case True
      then show ?thesis using \<open>p < length s \<and> isLetter (s ! p)\<close>
        by (intro isNameChar_not_gt isLetter_isNameChar) simp
    next
      case False
      then have "isNameChar (s ! i)"
        using run_between [of "Suc p" i isNameChar s] that \<open>k \<le> ?q\<close> by simp
      then show ?thesis by (rule isNameChar_not_gt)
    qed
  qed
  have at: "firstOf (rmatch wsRegex s (k, c')) =
      (if ?g < length s then Some (Suc ?g, c'(2 \<mapsto> (?g, ?g))) else None)"
    if "Suc p \<le> k" "k \<le> ?q" for k c'
    using ws_first [of k s c'] same [OF that] that q by simp
  have "rmatch wsRegex s (?q, c(1 \<mapsto> (p, ?q))) \<noteq> []
          \<or> (\<forall>y \<in> set (map tag rest). rmatch wsRegex s y = [])"
  proof (cases "?g < length s")
    case True
    then have "firstOf (rmatch wsRegex s (?q, c(1 \<mapsto> (p, ?q)))) \<noteq> None"
      using at [of ?q] by simp
    then show ?thesis by (simp only: firstOf_None_iff) simp
  next
    case False
    have "rmatch wsRegex s y = []" if "y \<in> set (map tag rest)" for y
    proof -
      from that obtain st where st: "st \<in> set rest" "y = tag st" by auto
      with rest have "Suc p \<le> fst st \<and> fst st < ?q" by blast
      then obtain k c' where y: "y = (k, c')" and k: "Suc p \<le> k" "k \<le> ?q"
        using st(2) by (cases st) (auto simp: tag_def)
      have "firstOf (rmatch wsRegex s (k, c')) = None" using at [OF k] False by simp
      then show ?thesis unfolding y by (simp only: firstOf_None_iff)
    qed
    then show ?thesis by blast
  qed
  with grp have "firstOf (rmatch nameRegex s (p, c))
                   = firstOf (rmatch wsRegex s (?q, c(1 \<mapsto> (p, ?q))))"
    by (rule seq_first)
  also have "\<dots> = (if ?g < length s then Some (Suc ?g, c(1 \<mapsto> (p, ?q), 2 \<mapsto> (?g, ?g))) else None)"
    by (rule at) simp_all
  also have "\<dots> = (if p < length s \<and> isLetter (s ! p)
      then (let q = Suc p + run isNameChar s (Suc p); g = gtIdx s p
            in if g < length s then Some (Suc g, c(1 \<mapsto> (p, q), 2 \<mapsto> (g, g))) else None)
      else None)" using True by (simp add: Let_def)
  finally show ?thesis .
qed

lemma tag_first: "firstOf (rmatch tagRegex s (i, Map.empty)) = tagAt s i"
proof (cases "i < length s \<and> s ! i = 0x3C")
  case False
  then have "rmatch tagRegex s (i, Map.empty) = []"
    unfolding tagRegex_def by (auto simp: rmatch.simps(1,2))
  then show ?thesis using False by (simp add: tagAt_def)
next
  case True
  let ?rest = "Seq (Opt (Chr (\<lambda>c. c = 0x2F))) nameRegex"
  have lt: "rmatch tagRegex s (i, Map.empty) = rmatch ?rest s (Suc i, Map.empty)"
    unfolding tagRegex_def using True by (simp add: rmatch.simps(1) rmatch.simps(2) [of "Chr _"])
  show ?thesis
  proof (cases "Suc i < length s \<and> s ! Suc i = 0x2F")
    case slash: True
    have opt: "rmatch (Opt (Chr (\<lambda>c. c = 0x2F))) s (Suc i, Map.empty)
                 = (Suc (Suc i), Map.empty) # [(Suc i, Map.empty)]"
      using slash by (simp add: rmatch.simps(1,5))
    have "\<not> isLetter (s ! Suc i)" using slash isLetter_not_slash by auto
    then have "firstOf (rmatch nameRegex s (Suc i, Map.empty)) = None"
      by (simp only: name_first) simp
    then have "rmatch nameRegex s (Suc i, Map.empty) = []" by (simp only: firstOf_None_iff)
    then have "firstOf (rmatch ?rest s (Suc i, Map.empty))
                 = firstOf (rmatch nameRegex s (Suc (Suc i), Map.empty))"
      by (intro seq_first [OF opt]) simp
    then have "firstOf (rmatch tagRegex s (i, Map.empty))
                 = firstOf (rmatch nameRegex s (Suc (Suc i), Map.empty))"
      by (simp only: lt)
    also have "\<dots> = tagAt s i"
      unfolding name_first using True slash by (simp add: tagAt_def Let_def)
    finally show ?thesis .
  next
    case noslash: False
    have opt: "rmatch (Opt (Chr (\<lambda>c. c = 0x2F))) s (Suc i, Map.empty) = (Suc i, Map.empty) # []"
      using noslash by (auto simp: rmatch.simps(1,5))
    have "firstOf (rmatch ?rest s (Suc i, Map.empty))
                 = firstOf (rmatch nameRegex s (Suc i, Map.empty))"
      by (intro seq_first [OF opt]) simp
    then have "firstOf (rmatch tagRegex s (i, Map.empty))
                 = firstOf (rmatch nameRegex s (Suc i, Map.empty))"
      by (simp only: lt)
    also have "\<dots> = tagAt s i"
      unfolding name_first using True noslash by (auto simp: tagAt_def Let_def)
    finally show ?thesis .
  qed
qed

subsection \<open>Bounds and the search\<close>

lemma rmatch_bounds:
  "st' \<in> set (rmatch r s st) \<Longrightarrow> fst st \<le> fst st' \<and> (fst st \<le> length s \<longrightarrow> fst st' \<le> length s)"
proof (induction r s st arbitrary: st' rule: rmatch.induct)
  case (1 P s i c)
  then show ?case by (auto simp: rmatch.simps(1) split: if_splits)
next
  case (2 r1 r2 s st)
  from "2.prems" obtain mid where mid: "mid \<in> set (rmatch r1 s st)" "st' \<in> set (rmatch r2 s mid)"
    by (auto simp: rmatch.simps(2))
  from "2.IH"(1) [OF mid(1)] "2.IH"(2) [OF mid(1) mid(2)] show ?case by auto
next
  case (3 r s i c)
  from "3.prems" consider "st' = (i, c)"
    | mid where "mid \<in> set (rmatch r s (i, c))" "i < fst mid" "fst mid \<le> length s"
        "st' \<in> set (rmatch (Star r) s mid)"
    by (subst (asm) rmatch.simps(3)) auto
  then show ?case
  proof cases
    case 1
    then show ?thesis by simp
  next
    case 2
    from "3.IH"(2) [of mid st'] 2 show ?thesis by auto
  qed
next
  case (4 r s i c)
  from "4.prems" consider "st' = (i, c)"
    | mid where "mid \<in> set (rmatch r s (i, c))" "i < fst mid" "fst mid \<le> length s"
        "st' \<in> set (rmatch (LazyStar r) s mid)"
    by (subst (asm) rmatch.simps(4)) auto
  then show ?case
  proof cases
    case 1
    then show ?thesis by simp
  next
    case 2
    from "4.IH"(2) [of mid st'] 2 show ?thesis by auto
  qed
next
  case (5 r s i c)
  then show ?case by (cases st') (auto simp: rmatch.simps(5))
next
  case (6 n r s i c)
  then show ?case by (fastforce simp: rmatch.simps(6))
next
  case (7 s i c)
  then show ?case by (auto simp: rmatch.simps(7) split: if_splits)
qed

lemma rsearch_firstOf:
  "rsearch r s i =
     (if length s < i then None
      else case firstOf (rmatch r s (i, Map.empty)) of
             None \<Rightarrow> rsearch r s (Suc i)
           | Some (e, c) \<Rightarrow> Some \<lparr>index = i, mend = e, caps = c\<rparr>)"
  by (subst rsearch.simps) (simp add: firstOf_def split: list.splits)

lemma rsearch_Some:
  "rsearch r s i = Some m \<Longrightarrow>
     i \<le> index m \<and> index m \<le> length s \<and>
     firstOf (rmatch r s (index m, Map.empty)) = Some (mend m, caps m) \<and>
     (\<forall>k. i \<le> k \<and> k < index m \<longrightarrow> rmatch r s (k, Map.empty) = [])"
proof (induction r s i rule: rsearch.induct)
  case (1 r s i)
  show ?case
  proof (cases "firstOf (rmatch r s (i, Map.empty))")
    case None
    then have e: "rmatch r s (i, Map.empty) = []" by (simp only: firstOf_None_iff)
    from "1.prems" None have le: "\<not> length s < i" and rec: "rsearch r s (Suc i) = Some m"
      by (subst (asm) rsearch_firstOf, simp split: if_splits)+
    from "1.IH" [OF le e rec]
    have ih: "Suc i \<le> index m" "index m \<le> length s"
      "firstOf (rmatch r s (index m, Map.empty)) = Some (mend m, caps m)"
      "\<And>k. Suc i \<le> k \<Longrightarrow> k < index m \<Longrightarrow> rmatch r s (k, Map.empty) = []"
      by blast+
    have "rmatch r s (k, Map.empty) = []" if "i \<le> k" "k < index m" for k
      using that e ih(4) [of k] by (cases "k = i") auto
    then show ?thesis using ih(1,2,3) by auto
  next
    case (Some a)
    with "1.prems" show ?thesis
      by (subst (asm) rsearch_firstOf) (auto split: if_splits prod.splits)
  qed
qed

lemma rsearch_None:
  "rsearch r s i = None \<longleftrightarrow> (\<forall>k. i \<le> k \<and> k \<le> length s \<longrightarrow> rmatch r s (k, Map.empty) = [])"
proof (induction r s i rule: rsearch.induct)
  case (1 r s i)
  show ?case
  proof (cases "length s < i")
    case True
    then show ?thesis by (subst rsearch_firstOf) auto
  next
    case le: False
    show ?thesis
    proof (cases "rmatch r s (i, Map.empty)")
      case Nil
      have "rsearch r s i = rsearch r s (Suc i)"
        using le Nil by (subst rsearch_firstOf) simp
      moreover have "(\<forall>k. i \<le> k \<and> k \<le> length s \<longrightarrow> rmatch r s (k, Map.empty) = [])
                 \<longleftrightarrow> (\<forall>k. Suc i \<le> k \<and> k \<le> length s \<longrightarrow> rmatch r s (k, Map.empty) = [])"
        using Nil by (metis Suc_leI le_neq_implies_less Suc_leD)
      ultimately show ?thesis using "1.IH" [OF le Nil] by simp
    next
      case (Cons a list)
      then have "rsearch r s i \<noteq> None"
        using le by (subst rsearch_firstOf) (auto split: prod.splits)
      moreover have "\<not> (\<forall>k. i \<le> k \<and> k \<le> length s \<longrightarrow> rmatch r s (k, Map.empty) = [])"
        using Cons le by (intro notI) (auto dest!: spec [of _ i])
      ultimately show ?thesis by blast
    qed
  qed
qed

lemma rsearch_hit:
  "i \<le> length s \<Longrightarrow> firstOf (rmatch r s (i, Map.empty)) = Some (e, c)
     \<Longrightarrow> rsearch r s i = Some \<lparr>index = i, mend = e, caps = c\<rparr>"
  by (subst rsearch_firstOf) simp

section \<open>The analysis always returns\<close>

lemma tagAt_Some:
  assumes "tagAt s i = Some (e, c)"
  shows "i < e" "e \<le> length s" "\<exists>a b. c 1 = Some (a, b)"
proof -
  show "i < e"
    using assms gtIdx_ge [of "Suc i" s] gtIdx_ge [of "Suc (Suc i)" s]
    by (auto simp: tagAt_def Let_def split: if_splits)
  show "e \<le> length s"
    using assms by (auto simp: tagAt_def Let_def split: if_splits)
  show "\<exists>a b. c 1 = Some (a, b)"
    using assms by (auto simp: tagAt_def Let_def split: if_splits)
qed

lemma tag_search_Some:
  assumes "rsearch tagRegex s i = Some m"
  shows "i \<le> index m" "index m < mend m" "mend m \<le> length s"
    "tagAt s (index m) = Some (mend m, caps m)" "\<exists>a b. caps m 1 = Some (a, b)"
proof -
  from rsearch_Some [OF assms] have i: "i \<le> index m"
    and t: "tagAt s (index m) = Some (mend m, caps m)" by (simp_all add: tag_first)
  show "i \<le> index m" by fact
  show "tagAt s (index m) = Some (mend m, caps m)" by fact
  show "index m < mend m" "mend m \<le> length s" "\<exists>a b. caps m 1 = Some (a, b)"
    using tagAt_Some [OF t] by blast+
qed

lemma tokenizeStep_total:
  "caps m 1 = Some ab \<Longrightarrow> \<exists>st'. tokenizeStep text m st = Inr st'"
  by (cases st; cases ab) (simp add: tokenizeStep_def group_def Let_def)

lemma tokenizeLoop_total: "\<exists>tokens. tokenizeLoop text i st = Some (Inr tokens)"
proof (induction "Suc (length text) - i" arbitrary: i st rule: less_induct)
  case less
  show ?case
  proof (cases "rsearch tagRegex text i")
    case None
    then show ?thesis by (subst tokenizeLoop.simps) simp
  next
    case (Some m)
    from tag_search_Some [OF Some] obtain ab
      where m: "i \<le> index m" "index m < mend m" "mend m \<le> length text" "caps m 1 = Some ab"
      by auto
    from tokenizeStep_total [OF m(4)] obtain st' where st': "tokenizeStep text m st = Inr st'"
      by blast
    have "Suc (length text) - mend m < Suc (length text) - i" using m by simp
    from less [OF this] obtain tokens where "tokenizeLoop text (mend m) st' = Some (Inr tokens)"
      by blast
    then show ?thesis using Some st' by (subst tokenizeLoop.simps) simp
  qed
qed

lemma closeLoop_total: "k \<le> length stack \<Longrightarrow> \<exists>stack'. closeLoop stack n k = Inr stack'"
  by (induction k) auto

lemma findStep_total: "\<exists>st'. findStep st token = Inr st'"
proof (cases st)
  case (Pair errors stack)
  obtain stack' where "closeLoop stack (tok_name token) (length stack) = Inr stack'"
    using closeLoop_total [of "length stack" stack] by blast
  then show ?thesis using Pair
    by (cases "tok_type token") (simp_all add: findStep_def Let_def)
qed

lemma findLoop_total: "\<exists>st'. findLoop st tokens = Inr st'"
proof (induction tokens arbitrary: st)
  case Nil
  then show ?case by simp
next
  case (Cons token tokens)
  obtain st1 where "findStep st token = Inr st1" using findStep_total by blast
  then show ?case using Cons [of st1] by simp
qed

lemma findNestingErrors_total: "\<exists>errors. findNestingErrors tokens = Inr errors"
proof -
  obtain st' where "findLoop ([], []) tokens = Inr st'" using findLoop_total by blast
  then show ?thesis by (cases st') (simp add: findNestingErrors_def)
qed

lemma analyzeRegions_total: "\<exists>errors. analyzeRegions regions acc = Some (Inr errors)"
proof (induction regions arbitrary: acc)
  case Nil
  then show ?case by simp
next
  case (Cons region regions)
  obtain tokens where t: "tokenizeTags (region_text region) = Some (Inr tokens)"
    unfolding tokenizeTags_def using tokenizeLoop_total by blast
  obtain errs where e: "findNestingErrors tokens = Inr errs"
    using findNestingErrors_total by blast
  show ?case using Cons [of "acc @ map (withAbsoluteOffset region) errs"] t e by simp
qed

subsection \<open>The return regex\<close>

lemma returnRegex_progress:
  assumes "st' \<in> set (rmatch returnRegex s (i, c))" "i \<le> length s"
  shows "i < fst st'" "fst st' \<le> length s"
proof -
  let ?rest = "lit (str ''eturn'')
       (Seq (Star (Chr isSpace)) (Seq (Chr (\<lambda>c. c = 0x28)) (Star (Chr isSpace))))"
  have rr: "returnRegex = Seq WordB (Seq (Chr (\<lambda>c. c = 0x72)) ?rest)"
    by (simp add: returnRegex_def str_def)
  from assms(1) obtain m1 where m1: "m1 \<in> set (rmatch WordB s (i, c))"
      "st' \<in> set (rmatch (Seq (Chr (\<lambda>c. c = 0x72)) ?rest) s m1)"
    unfolding rr by (subst (asm) rmatch.simps(2)) auto
  then obtain m2 where m2: "m2 \<in> set (rmatch (Chr (\<lambda>c. c = 0x72)) s m1)"
      "st' \<in> set (rmatch ?rest s m2)"
    by (subst (asm) rmatch.simps(2)) auto
  have "m1 = (i, c)" using m1(1) by (auto simp: rmatch.simps(7) split: if_splits)
  then have "fst m2 = Suc i" "Suc i \<le> length s"
    using m2(1) by (auto simp: rmatch.simps(1) split: if_splits)
  then show "i < fst st'" "fst st' \<le> length s"
    using rmatch_bounds [OF m2(2)] by auto
qed

lemma return_search_Some:
  assumes "rsearch returnRegex s i = Some m"
  shows "i \<le> index m" "index m < mend m" "mend m \<le> length s"
proof -
  from rsearch_Some [OF assms] have i: "i \<le> index m" "index m \<le> length s"
    and f: "firstOf (rmatch returnRegex s (index m, Map.empty)) = Some (mend m, caps m)"
    by simp_all
  from f have "(mend m, caps m) \<in> set (rmatch returnRegex s (index m, Map.empty))"
    by (cases "rmatch returnRegex s (index m, Map.empty)") auto
  from returnRegex_progress [OF this i(2)] show "index m < mend m" "mend m \<le> length s" by simp_all
  show "i \<le> index m" by fact
qed

lemma jsxLoop_total: "\<exists>result. jsxLoop content i regions = Some result"
proof (induction "Suc (length content) - i" arbitrary: i regions rule: less_induct)
  case less
  show ?case
  proof (cases "rsearch returnRegex content i")
    case None
    then show ?thesis by (subst jsxLoop.simps) simp
  next
    case (Some m)
    from return_search_Some [OF Some]
    have "Suc (length content) - mend m < Suc (length content) - i" by simp
    from less [OF this] have "\<exists>result. jsxLoop content (mend m) regions' = Some result" for regions'
      by blast
    then show ?thesis using Some by (subst jsxLoop.simps) (simp add: Let_def)
  qed
qed

lemma extractMarkupRegions_total: "\<exists>regions. extractMarkupRegions content languageId = Some regions"
proof -
  obtain r where "jsxLoop content 0 [] = Some r" using jsxLoop_total by blast
  then show ?thesis by (simp add: extractMarkupRegions_def extractJsxRegions_def)
qed

lemma analyzeDocument_total: "\<exists>errors. analyzeDocument content languageId = Some (Inr errors)"
proof -
  obtain regions where "extractMarkupRegions content languageId = Some regions"
    using extractMarkupRegions_total by blast
  then show ?thesis using analyzeRegions_total [of regions "[]"] by (simp add: analyzeDocument_def)
qed

section \<open>Properties of the rule catalogue\<close>

lemma unat_of_char: "unat (of_char c :: 16 word) = of_char c"
proof -
  have "(of_char c :: 16 word) = of_nat (of_char c)" by (simp add: of_nat_of_char)
  moreover have "(of_char c :: nat) < 2 ^ 16"
  proof -
    have "(of_char c :: nat) < 256" by (rule nat_of_char_less_256)
    also have "(256 :: nat) < 2 ^ 16" by simp
    finally show ?thesis .
  qed
  ultimately show ?thesis by (simp add: unat_of_nat take_bit_nat_eq_self)
qed

lemma inj_of_char_word: "inj (of_char :: char \<Rightarrow> 16 word)"
proof (rule injI)
  fix a b :: char
  assume "(of_char a :: 16 word) = of_char b"
  then have "unat (of_char a :: 16 word) = unat (of_char b :: 16 word)" by simp
  then show "a = b" by (simp add: unat_of_char)
qed

lemma str_eq_iff [simp]: "str a = str b \<longleftrightarrow> a = b"
  by (simp add: str_def inj_map_eq_map [OF inj_of_char_word])

lemma str_mem_iff [simp]: "str a \<in> set (map str xs) \<longleftrightarrow> a \<in> set xs"
  by auto

lemma buildRulesMap_snoc:
  "buildRulesMap (rules @ [rule]) = (buildRulesMap rules)(keyOf rule \<mapsto> rule)"
  by (simp add: buildRulesMap_def keyOf_def)

lemma buildRulesMap_Nil: "buildRulesMap [] = Map.empty"
  by (simp add: buildRulesMap_def)

lemma buildRulesMap_append:
  "buildRulesMap (xs @ ys) k =
     (case buildRulesMap ys k of Some r \<Rightarrow> Some r | None \<Rightarrow> buildRulesMap xs k)"
proof (induction ys rule: rev_induct)
  case Nil
  then show ?case by (simp add: buildRulesMap_Nil)
next
  case (snoc y ys)
  have "buildRulesMap (xs @ ys @ [y]) = (buildRulesMap (xs @ ys))(keyOf y \<mapsto> y)"
    using buildRulesMap_snoc [of "xs @ ys" y] by simp
  then show ?case using snoc by (simp add: buildRulesMap_snoc)
qed

lemma buildRulesMap_Some:
  "buildRulesMap rules k = Some r \<Longrightarrow> r \<in> set rules \<and> keyOf r = k"
proof (induction rules rule: rev_induct)
  case Nil
  then show ?case by (simp add: buildRulesMap_Nil)
next
  case (snoc x xs)
  then show ?case by (auto simp: buildRulesMap_snoc split: if_splits)
qed

lemma buildRulesMap_None: "buildRulesMap rules k = None \<longleftrightarrow> k \<notin> keyOf ` set rules"
proof (induction rules rule: rev_induct)
  case Nil
  then show ?case by (simp add: buildRulesMap_Nil)
next
  case (snoc x xs)
  then show ?case by (auto simp: buildRulesMap_snoc)
qed

lemma set_generateRulesForAllowedChildren:
  "set (generateRulesForAllowedChildren p allowed r alts refs)
     = (\<lambda>c. makeRule p c r alts refs) ` (set ALL_HTML_TAGS - set allowed)"
  by (auto simp: generateRulesForAllowedChildren_def)

lemma parent_makeRule [simp]: "parent (makeRule p c r alts refs) = p"
  and child_makeRule [simp]: "child (makeRule p c r alts refs) = c"
  by (simp_all add: makeRule_def)

lemma gen_parent:
  "rule \<in> set (generateRulesForAllowedChildren p allowed r alts refs) \<Longrightarrow> parent rule = p"
  by (auto simp: set_generateRulesForAllowedChildren)

lemma autoRules_parent: "rule \<in> set autoRules \<Longrightarrow> parent rule \<in> set strictParents"
  unfolding autoRules_def strictParents_def
  by (auto dest!: gen_parent)

lemma explicit_pairs: "map (\<lambda>rule. (parent rule, child rule)) NESTING_RULES = explicitPairs"
  by (simp add: NESTING_RULES_def explicitPairs_def)

lemma explicit_pair_mem:
  "rule \<in> set NESTING_RULES \<Longrightarrow> (parent rule, child rule) \<in> set explicitPairs"
  unfolding explicit_pairs [symmetric] by (simp add: rev_image_eqI)

lemma explicitPairs_catalogue:
  "list_all (\<lambda>(p, c). p \<in> set ALL_HTML_TAGS \<and> c \<in> set ALL_HTML_TAGS) explicitPairs"
  by (simp add: explicitPairs_def ALL_HTML_TAGS_def)

lemma explicitPairs_parents:
  "list_all (\<lambda>(p, c). p \<in> set strictParents \<or> p = str ''figcaption'' \<or> p = str ''caption'')
     explicitPairs"
  by (simp add: explicitPairs_def strictParents_def)

lemma NESTING_RULES_COMPLETE_set:
  "set NESTING_RULES_COMPLETE =
     set NESTING_RULES \<union> {rule \<in> set autoRules. parent rule \<in> set ALL_HTML_TAGS \<and> child rule \<in> set ALL_HTML_TAGS}"
  by (auto simp: NESTING_RULES_COMPLETE_def GENERATED_NESTING_RULES_def
      generateAutomaticRules_def HTML_TAGS_SET_def)

lemma explicit_in_catalogue:
  assumes "rule \<in> set NESTING_RULES"
  shows "parent rule \<in> set ALL_HTML_TAGS" "child rule \<in> set ALL_HTML_TAGS"
  using explicitPairs_catalogue explicit_pair_mem [OF assms]
  by (auto simp: list_all_iff)

lemma complete_in_catalogue:
  assumes "rule \<in> set NESTING_RULES_COMPLETE"
  shows "parent rule \<in> set ALL_HTML_TAGS" "child rule \<in> set ALL_HTML_TAGS"
  using assms explicit_in_catalogue by (auto simp: NESTING_RULES_COMPLETE_set)

lemma complete_parents:
  assumes "rule \<in> set NESTING_RULES_COMPLETE"
  shows "parent rule \<in> set strictParents \<or> parent rule = str ''figcaption'' \<or> parent rule = str ''caption''"
proof (cases "rule \<in> set NESTING_RULES")
  case True
  then show ?thesis using explicitPairs_parents explicit_pair_mem [OF True]
    by (auto simp: list_all_iff)
next
  case False
  then have "rule \<in> set autoRules" using assms by (auto simp: NESTING_RULES_COMPLETE_set)
  then show ?thesis using autoRules_parent by blast
qed

lemma RULES_MAP_Some:
  assumes "RULES_MAP key = Some rule"
  shows "rule \<in> set NESTING_RULES_COMPLETE" "key = ruleKey (parent rule) (child rule)"
  using buildRulesMap_Some [of NESTING_RULES_COMPLETE key rule] assms
  by (simp_all add: RULES_MAP_def keyOf_def)

lemma RULES_MAP_append:
  "RULES_MAP key =
     (case buildRulesMap GENERATED_NESTING_RULES key of
        Some rule \<Rightarrow> Some rule
      | None \<Rightarrow> buildRulesMap NESTING_RULES key)"
  by (simp add: RULES_MAP_def NESTING_RULES_COMPLETE_def buildRulesMap_append)

text \<open>Keys determine their two tags when the tags have no colon.\<close>

lemma ruleKey_inject:
  assumes "0x3A \<notin> set p" "0x3A \<notin> set p'" "ruleKey p c = ruleKey p' c'"
  shows "p = p' \<and> c = c'"
proof -
  have k: "ruleKey q d = q @ 0x3A # 0x3A # d" for q d by (simp add: ruleKey_def str_def)
  have t: "takeWhile (\<lambda>x. x \<noteq> 0x3A) (q @ 0x3A # rest) = q" if "0x3A \<notin> set q" for q rest :: jsstring
    using that by (induction q) auto
  have "takeWhile (\<lambda>x. x \<noteq> 0x3A) (ruleKey p c) = takeWhile (\<lambda>x. x \<noteq> 0x3A) (ruleKey p' c')"
    using assms(3) by simp
  then have "p = p'" unfolding k using t assms(1,2) by simp
  then show ?thesis using assms(3) by (simp add: k)
qed

lemma str_simps: "str [] = []" "str (x # xs) = of_char x # str xs"
  by (simp_all add: str_def)

lemma catalogue_noColon: "list_all noColon ALL_HTML_TAGS"
  by (simp add: ALL_HTML_TAGS_def noColon_def str_simps)

lemma complete_noColon:
  "rule \<in> set NESTING_RULES_COMPLETE \<Longrightarrow> 0x3A \<notin> set (parent rule)"
  using complete_in_catalogue(1) [of rule] catalogue_noColon
  by (auto simp: list_all_iff noColon_def)

lemma RULES_MAP_key_Some:
  assumes "RULES_MAP (ruleKey p c) = Some rule" "0x3A \<notin> set p"
  shows "rule \<in> set NESTING_RULES_COMPLETE" "parent rule = p" "child rule = c"
proof -
  from RULES_MAP_Some [OF assms(1)]
  have r: "rule \<in> set NESTING_RULES_COMPLETE"
    and k: "ruleKey p c = ruleKey (parent rule) (child rule)" by simp_all
  show "rule \<in> set NESTING_RULES_COMPLETE" by fact
  from ruleKey_inject [OF assms(2) complete_noColon [OF r] k]
  show "parent rule = p" "child rule = c" by simp_all
qed

lemma RULES_MAP_member:
  assumes "rule \<in> set NESTING_RULES_COMPLETE"
  shows "\<exists>rule'. RULES_MAP (ruleKey (parent rule) (child rule)) = Some rule'"
proof -
  have "ruleKey (parent rule) (child rule) \<in> keyOf ` set NESTING_RULES_COMPLETE"
    using assms by (auto simp: keyOf_def)
  then have "RULES_MAP (ruleKey (parent rule) (child rule)) \<noteq> None"
    by (simp add: RULES_MAP_def buildRulesMap_None)
  then show ?thesis by auto
qed

lemma RULES_MAP_no_parent:
  assumes "p \<notin> set strictParents" "p \<noteq> str ''figcaption''" "p \<noteq> str ''caption''" "0x3A \<notin> set p"
  shows "RULES_MAP (ruleKey p c) = None"
proof (cases "RULES_MAP (ruleKey p c)")
  case None
  then show ?thesis .
next
  case (Some rule)
  from RULES_MAP_key_Some [OF Some assms(4)] complete_parents [of rule] assms(1,2,3)
  show ?thesis by auto
qed

lemma explicit_rule_present:
  assumes "(p, c) \<in> set explicitPairs"
  shows "\<exists>rule. RULES_MAP (ruleKey p c) = Some rule"
proof -
  from assms obtain rule where r: "rule \<in> set NESTING_RULES" "parent rule = p" "child rule = c"
    unfolding explicit_pairs [symmetric] by auto
  then have "rule \<in> set NESTING_RULES_COMPLETE" by (simp add: NESTING_RULES_COMPLETE_set)
  from RULES_MAP_member [OF this] r show ?thesis by simp
qed

lemma makeRule_inject [simp]:
  "makeRule p c r a f = makeRule p' c' r' a' f' \<longleftrightarrow> p = p' \<and> c = c' \<and> r = r' \<and> a = a' \<and> f = f'"
  by (auto simp: makeRule_def)

lemma makeRule_sel [simp]:
  "reason (makeRule p c r a f) = r" "alternatives (makeRule p c r a f) = a"
  "references (makeRule p c r a f) = f"
  by (simp_all add: makeRule_def)

lemma mem_generateRulesForAllowedChildren:
  "rule \<in> set (generateRulesForAllowedChildren q allowed r a f) \<longleftrightarrow>
     rule = makeRule q (child rule) r a f \<and> child rule \<in> set ALL_HTML_TAGS \<and> child rule \<notin> set allowed"
  by (auto simp: set_generateRulesForAllowedChildren)

lemma str_append: "str (a @ b) = str a @ str b"
  by (simp add: str_def)

lemma gen_elim:
  assumes "rule \<in> set (generateRulesForAllowedChildren q allowed r a f)"
  shows "parent rule = q \<and> reason rule = r \<and> alternatives rule = a \<and> references rule = f \<and>
         child rule \<in> set ALL_HTML_TAGS \<and> child rule \<notin> set allowed"
  using assms by (auto simp: set_generateRulesForAllowedChildren)

lemma NestingRule_eq_makeRule:
  "rule = makeRule (parent rule) (child rule) (reason rule) (alternatives rule) (references rule)"
  by (simp add: makeRule_def)

lemma autoRules_p:
  assumes "rule \<in> set autoRules" "parent rule = str ''p''"
  shows "reason rule = phrasingReason (str ''p'') \<and> alternatives rule = phrasingAlternatives \<and>
         references rule = DEFAULT_REFS"
  using assms unfolding autoRules_def phrasingReason_def phrasingAlternatives_def
  by (auto dest!: gen_elim)

lemma autoRules_p_div:
  "makeRule (str ''p'') (str ''div'') (phrasingReason (str ''p'')) phrasingAlternatives DEFAULT_REFS
     \<in> set autoRules"
proof -
  have "str ''div'' \<in> set ALL_HTML_TAGS" by (simp add: ALL_HTML_TAGS_def)
  moreover have "str ''div'' \<notin> set PHRASING_CONTENT_TAGS" by (simp add: PHRASING_CONTENT_TAGS_def)
  ultimately have "makeRule (str ''p'') (str ''div'') (phrasingReason (str ''p'')) phrasingAlternatives DEFAULT_REFS
     \<in> set (generateRulesForAllowedChildren (str ''p'') PHRASING_CONTENT_TAGS
              (phrasingReason (str ''p'')) phrasingAlternatives DEFAULT_REFS)"
    by (simp add: mem_generateRulesForAllowedChildren)
  then show ?thesis
    unfolding autoRules_def phrasingReason_def phrasingAlternatives_def by simp
qed

lemma generated_set:
  "set GENERATED_NESTING_RULES =
     {rule \<in> set autoRules. parent rule \<in> set ALL_HTML_TAGS \<and> child rule \<in> set ALL_HTML_TAGS}"
  by (auto simp: GENERATED_NESTING_RULES_def generateAutomaticRules_def HTML_TAGS_SET_def)

lemma generated_subset_complete: "set GENERATED_NESTING_RULES \<subseteq> set NESTING_RULES_COMPLETE"
  by (simp add: NESTING_RULES_COMPLETE_def)

lemma RULES_MAP_generated:
  assumes "rule \<in> set GENERATED_NESTING_RULES"
  shows "\<exists>rule' \<in> set GENERATED_NESTING_RULES.
           RULES_MAP (ruleKey (parent rule) (child rule)) = Some rule' \<and>
           parent rule' = parent rule \<and> child rule' = child rule"
proof -
  let ?k = "ruleKey (parent rule) (child rule)"
  have "?k \<in> keyOf ` set GENERATED_NESTING_RULES" using assms by (auto simp: keyOf_def)
  then have "buildRulesMap GENERATED_NESTING_RULES ?k \<noteq> None" by (simp add: buildRulesMap_None)
  then obtain rule' where r: "buildRulesMap GENERATED_NESTING_RULES ?k = Some rule'" by auto
  from buildRulesMap_Some [OF r]
  have m: "rule' \<in> set GENERATED_NESTING_RULES" and k: "keyOf rule' = ?k" by simp_all
  have "0x3A \<notin> set (parent rule)" "0x3A \<notin> set (parent rule')"
    using assms m generated_subset_complete complete_noColon by blast+
  from ruleKey_inject [OF this(2) this(1)] k
  have "parent rule' = parent rule \<and> child rule' = child rule" by (simp add: keyOf_def)
  moreover have "RULES_MAP ?k = Some rule'" by (simp add: RULES_MAP_append r)
  ultimately show ?thesis using m by blast
qed

lemma RULES_MAP_p_div:
  "RULES_MAP (ruleKey (str ''p'') (str ''div'')) =
     Some (makeRule (str ''p'') (str ''div'') (phrasingReason (str ''p'')) phrasingAlternatives
             DEFAULT_REFS)"
proof -
  let ?g = "makeRule (str ''p'') (str ''div'') (phrasingReason (str ''p'')) phrasingAlternatives
             DEFAULT_REFS"
  have "str ''p'' \<in> set ALL_HTML_TAGS" "str ''div'' \<in> set ALL_HTML_TAGS"
    by (simp_all add: ALL_HTML_TAGS_def)
  then have "?g \<in> set GENERATED_NESTING_RULES"
    using autoRules_p_div by (simp add: generated_set)
  from RULES_MAP_generated [OF this] obtain rule'
    where r: "rule' \<in> set GENERATED_NESTING_RULES"
      "RULES_MAP (ruleKey (str ''p'') (str ''div'')) = Some rule'"
      "parent rule' = str ''p''" "child rule' = str ''div''"
    by auto
  from r(1) have "rule' \<in> set autoRules" by (simp add: generated_set)
  from autoRules_p [OF this r(3)] r(3,4) have "rule' = ?g"
    by (subst NestingRule_eq_makeRule [of rule']) simp
  then show ?thesis using r(2) by simp
qed

lemma autoRules_select_input:
  "makeRule (str ''select'') (str ''input'')
     (str ''<select> solo admite <option> y <optgroup> como contenido principal.'')
     [str ''Reemplaza este elemento por <option> u <optgroup>.''] DEFAULT_REFS
     \<in> set autoRules"
proof -
  have "str ''input'' \<in> set ALL_HTML_TAGS" by (simp add: ALL_HTML_TAGS_def)
  then have "makeRule (str ''select'') (str ''input'')
     (str ''<select> solo admite <option> y <optgroup> como contenido principal.'')
     [str ''Reemplaza este elemento por <option> u <optgroup>.''] DEFAULT_REFS
     \<in> set (generateRulesForAllowedChildren (str ''select'')
              (map str [''option'', ''optgroup'', ''hr'', ''script'', ''template''])
              (str ''<select> solo admite <option> y <optgroup> como contenido principal.'')
              [str ''Reemplaza este elemento por <option> u <optgroup>.''] DEFAULT_REFS)"
    by (simp add: mem_generateRulesForAllowedChildren)
  then show ?thesis unfolding autoRules_def by simp
qed

lemma RULES_MAP_select_input:
  "\<exists>rule. RULES_MAP (ruleKey (str ''select'') (str ''input'')) = Some rule"
proof -
  have "makeRule (str ''select'') (str ''input'')
     (str ''<select> solo admite <option> y <optgroup> como contenido principal.'')
     [str ''Reemplaza este elemento por <option> u <optgroup>.''] DEFAULT_REFS
     \<in> set GENERATED_NESTING_RULES"
    using autoRules_select_input by (simp add: generated_set ALL_HTML_TAGS_def)
  from RULES_MAP_generated [OF this] show ?thesis by auto
qed

section \<open>Tokenizing simple tags\<close>

lemma isLower_facts:
  assumes "isLower c"
  shows "isLetter c" "isNameChar c" "isLowerNameChar c" "c \<noteq> 0x2F" "c \<noteq> 0x3E" "toLowerChar c = c"
  using assms
  by (auto simp: isLower_def isLetter_def isNameChar_def isLowerNameChar_def toLowerChar_def
      word_le_nat_alt)

lemma isLowerNameChar_facts:
  assumes "isLowerNameChar c"
  shows "isNameChar c" "c \<noteq> 0x2F" "c \<noteq> 0x3E" "toLowerChar c = c"
  using assms
  by (auto simp: isLower_def isLetter_def isNameChar_def isLowerNameChar_def toLowerChar_def
      word_le_nat_alt)

lemma tagName_Cons:
  assumes "tagName t"
  obtains n ns where "t = n # ns" "isLower n" "list_all isLowerNameChar ns"
  using assms by (cases t) (auto simp: tagName_def)

lemma tagName_all: "tagName t \<Longrightarrow> list_all isLowerNameChar t"
  by (cases t) (auto simp: tagName_def isLower_facts)

lemma tagName_toLowerCase: "tagName t \<Longrightarrow> toLowerCase t = t"
  using tagName_all [of t]
  by (auto simp: toLowerCase_def list_all_iff isLowerNameChar_facts intro: map_idI)

lemma run_exact:
  assumes "list_all P b" "post = [] \<or> \<not> P (hd post)"
  shows "run P (a @ b @ post) (length a) = length b"
proof -
  have "takeWhile P post = []" using assms(2) by (cases post) auto
  moreover have "takeWhile P (b @ post) = b @ takeWhile P post"
    using assms(1) by (simp add: list_all_iff takeWhile_append2)
  ultimately show ?thesis by (simp add: run_def)
qed

lemma gtIdx_exact:
  assumes "list_all (\<lambda>c. c \<noteq> 0x3E) b"
  shows "gtIdx (a @ b @ 0x3E # post) (length a) = length a + length b"
  using run_exact [of "\<lambda>c. c \<noteq> 0x3E" b "0x3E # post" a] assms by (simp add: gtIdx_def)

lemma tagAt_open:
  assumes "isLower n" "list_all isLowerNameChar ns" "list_all (\<lambda>c. c \<noteq> 0x3E) attrs"
    "attrs = [] \<or> \<not> isNameChar (hd attrs)"
  shows "\<exists>c. tagAt (pre @ 0x3C # (n # ns) @ attrs @ 0x3E # post) (length pre) =
             Some (length pre + length ns + length attrs + 3, c) \<and>
           c 1 = Some (length pre + 1, length pre + length ns + 2) \<and>
           c 2 = Some (length pre + length ns + length attrs + 2,
                       length pre + length ns + length attrs + 2)"
proof -
  let ?s = "pre @ 0x3C # (n # ns) @ attrs @ 0x3E # post"
  let ?i = "length pre"
  have s0: "?s ! ?i = 0x3C" by simp
  have s1: "?s ! Suc ?i = n" using nth_append_length [of "pre @ [0x3C]" n] by simp
  have r: "run isNameChar ?s (Suc (Suc ?i)) = length ns"
  proof -
    have "list_all isNameChar ns" using assms(2) by (auto simp: list_all_iff isLowerNameChar_facts)
    moreover have "attrs @ 0x3E # post = [] \<or> \<not> isNameChar (hd (attrs @ 0x3E # post))"
      using assms(4) isNameChar_not_gt by (cases attrs) auto
    ultimately show ?thesis
      using run_exact [of isNameChar ns "attrs @ 0x3E # post" "pre @ [0x3C, n]"] by simp
  qed
  have g: "gtIdx ?s (Suc ?i) = Suc ?i + length (n # ns @ attrs)"
  proof -
    have "list_all (\<lambda>c. c \<noteq> 0x3E) (n # ns @ attrs)"
      using assms(1,2,3) by (auto simp: list_all_iff isLower_facts dest: isLowerNameChar_facts(3))
    then show ?thesis
      using gtIdx_exact [of "n # ns @ attrs" "pre @ [0x3C]" post] by simp
  qed
  show ?thesis
    unfolding tagAt_def using assms(1) s0 s1 r g
    by (simp add: isLower_facts Let_def)
qed

lemma tagAt_close:
  assumes "isLower n" "list_all isLowerNameChar ns" "list_all (\<lambda>c. c \<noteq> 0x3E) attrs"
    "attrs = [] \<or> \<not> isNameChar (hd attrs)"
  shows "\<exists>c. tagAt (pre @ 0x3C # 0x2F # (n # ns) @ attrs @ 0x3E # post) (length pre) =
             Some (length pre + length ns + length attrs + 4, c) \<and>
           c 1 = Some (length pre + 2, length pre + length ns + 3) \<and>
           c 2 = Some (length pre + length ns + length attrs + 3,
                       length pre + length ns + length attrs + 3)"
proof -
  let ?s = "pre @ 0x3C # 0x2F # (n # ns) @ attrs @ 0x3E # post"
  let ?i = "length pre"
  have s0: "?s ! ?i = 0x3C" by simp
  have s1: "?s ! Suc ?i = 0x2F" using nth_append_length [of "pre @ [0x3C]" "0x2F"] by simp
  have s2: "?s ! Suc (Suc ?i) = n" using nth_append_length [of "pre @ [0x3C, 0x2F]" n] by simp
  have r: "run isNameChar ?s (Suc (Suc (Suc ?i))) = length ns"
  proof -
    have "list_all isNameChar ns" using assms(2) by (auto simp: list_all_iff isLowerNameChar_facts)
    moreover have "attrs @ 0x3E # post = [] \<or> \<not> isNameChar (hd (attrs @ 0x3E # post))"
      using assms(4) isNameChar_not_gt by (cases attrs) auto
    ultimately show ?thesis
      using run_exact [of isNameChar ns "attrs @ 0x3E # post" "pre @ [0x3C, 0x2F, n]"] by simp
  qed
  have g: "gtIdx ?s (Suc (Suc ?i)) = Suc (Suc ?i) + length (n # ns @ attrs)"
  proof -
    have "list_all (\<lambda>c. c \<noteq> 0x3E) (n # ns @ attrs)"
      using assms(1,2,3) by (auto simp: list_all_iff isLower_facts dest: isLowerNameChar_facts(3))
    then show ?thesis
      using gtIdx_exact [of "n # ns @ attrs" "pre @ [0x3C, 0x2F]" post] by simp
  qed
  show ?thesis
    unfolding tagAt_def using assms(1) s0 s1 s2 r g
    by (simp add: isLower_facts Let_def)
qed

lemma endsWith_slash_gt:
  assumes "body \<noteq> []"
  shows "endsWith (x # body @ [0x3E]) (str ''/>'') \<longleftrightarrow> last body = 0x2F"
proof -
  have "drop (length body - Suc 0) body = [last body]"
    using assms by (induction body) (auto simp: drop_Cons')
  then have "drop (length (x # body @ [0x3E]) - 2) (x # body @ [0x3E]) = [last body, 0x3E]"
    using assms by (cases body) (auto simp: drop_Cons')
  then show ?thesis by (auto simp: endsWith_def str_simps)
qed

lemma tokenizeStep_open:
  assumes "group text m 1 = Some N" "toLowerCase N = N"
    "\<not> startsWith (matched text m) (str ''</'')" "group text m 2 = Some []"
    "endsWith (matched text m) (str ''/>'') \<longleftrightarrow> sc" "length (matched text m) = len"
    "index m = off"
  shows "tokenizeStep text m st = Inr (afterOpenTag N sc off len st)"
  using assms by (cases st) (simp add: tokenizeStep_def afterOpenTag_def Let_def str_simps)

lemma tokenizeStep_close:
  assumes "group text m 1 = Some N" "toLowerCase N = N"
    "startsWith (matched text m) (str ''</'')" "length (matched text m) = len" "index m = off"
  shows "tokenizeStep text m st = Inr (afterCloseTag N off len st)"
  using assms by (cases st) (simp add: tokenizeStep_def afterCloseTag_def Let_def)

lemma tokenizeLoop_open_tag:
  assumes "tagName N" "list_all (\<lambda>c. c \<noteq> 0x3E) attrs" "attrs = [] \<or> \<not> isNameChar (hd attrs)"
  shows "tokenizeLoop (pre @ 0x3C # N @ attrs @ 0x3E # post) (length pre) st =
         tokenizeLoop (pre @ 0x3C # N @ attrs @ 0x3E # post)
           (length pre + length N + length attrs + 2)
           (afterOpenTag N (attrs \<noteq> [] \<and> last attrs = 0x2F) (length pre)
              (length N + length attrs + 2) st)"
proof -
  from assms(1) obtain n ns where N: "N = n # ns" "isLower n" "list_all isLowerNameChar ns"
    by (rule tagName_Cons)
  let ?s = "pre @ 0x3C # N @ attrs @ 0x3E # post"
  let ?e = "length pre + length N + length attrs + 2"
  from tagAt_open [OF N(2,3) assms(2,3), of pre post] obtain c
    where c: "tagAt ?s (length pre) = Some (?e, c)"
      "c 1 = Some (length pre + 1, length pre + length N + 1)"
      "c 2 = Some (length pre + length N + length attrs + 1, length pre + length N + length attrs + 1)"
    unfolding N(1) by auto
  let ?m = "\<lparr>index = length pre, mend = ?e, caps = c\<rparr>"
  have search: "rsearch tagRegex ?s (length pre) = Some ?m"
    using c(1) by (intro rsearch_hit) (simp_all add: tag_first)
  have full: "matched ?s ?m = 0x3C # N @ attrs @ [0x3E]"
    by (simp add: matched_def)
  have g1: "group ?s ?m 1 = Some N"
    using c(2) by (simp add: group_def)
  have g2: "group ?s ?m 2 = Some []"
    using c(3) by (simp add: group_def)
  have low: "toLowerCase N = N" using assms(1) by (rule tagName_toLowerCase)
  have sw: "\<not> startsWith (matched ?s ?m) (str ''</'')"
  proof -
    have "\<not> startsWith (0x3C # N @ attrs @ [0x3E]) (str ''</'')"
      unfolding N(1) using N(2) by (simp add: startsWith_def str_simps isLower_facts)
    then show ?thesis unfolding full .
  qed
  have ew: "endsWith (matched ?s ?m) (str ''/>'') \<longleftrightarrow> attrs \<noteq> [] \<and> last attrs = 0x2F"
  proof -
    have "last (N @ attrs) = 0x2F \<longleftrightarrow> attrs \<noteq> [] \<and> last attrs = 0x2F"
    proof (cases "attrs = []")
      case True
      have "isLowerNameChar (last N)"
        using tagName_all [OF assms(1)] N(1) by (auto simp: list_all_iff)
      then show ?thesis using True isLowerNameChar_facts(2) by auto
    next
      case False
      then show ?thesis by simp
    qed
    then show ?thesis unfolding full using endsWith_slash_gt [of "N @ attrs" "0x3C"] N(1) by simp
  qed
  have len: "length (matched ?s ?m) = length N + length attrs + 2" unfolding full by simp
  have step: "tokenizeStep ?s ?m st =
      Inr (afterOpenTag N (attrs \<noteq> [] \<and> last attrs = 0x2F) (length pre)
             (length N + length attrs + 2) st)"
    by (rule tokenizeStep_open [OF g1 low sw g2 ew len]) simp
  show ?thesis
    by (subst tokenizeLoop.simps)
       (simp only: search step option.case sum.case RegExpMatch.select_convs)
qed

lemma tokenizeLoop_close_tag:
  assumes "tagName N" "list_all (\<lambda>c. c \<noteq> 0x3E) attrs" "attrs = [] \<or> \<not> isNameChar (hd attrs)"
  shows "tokenizeLoop (pre @ 0x3C # 0x2F # N @ attrs @ 0x3E # post) (length pre) st =
         tokenizeLoop (pre @ 0x3C # 0x2F # N @ attrs @ 0x3E # post)
           (length pre + length N + length attrs + 3)
           (afterCloseTag N (length pre) (length N + length attrs + 3) st)"
proof -
  from assms(1) obtain n ns where N: "N = n # ns" "isLower n" "list_all isLowerNameChar ns"
    by (rule tagName_Cons)
  let ?s = "pre @ 0x3C # 0x2F # N @ attrs @ 0x3E # post"
  let ?e = "length pre + length N + length attrs + 3"
  from tagAt_close [OF N(2,3) assms(2,3), of pre post] obtain c
    where c: "tagAt ?s (length pre) = Some (?e, c)"
      "c 1 = Some (length pre + 2, length pre + length N + 2)"
    unfolding N(1) by auto
  let ?m = "\<lparr>index = length pre, mend = ?e, caps = c\<rparr>"
  have search: "rsearch tagRegex ?s (length pre) = Some ?m"
    using c(1) by (intro rsearch_hit) (simp_all add: tag_first)
  have full: "matched ?s ?m = 0x3C # 0x2F # N @ attrs @ [0x3E]"
    by (simp add: matched_def eval_nat_numeral)
  have g1: "group ?s ?m 1 = Some N"
    using c(2) by (simp add: group_def)
  have low: "toLowerCase N = N" using assms(1) by (rule tagName_toLowerCase)
  have sw: "startsWith (matched ?s ?m) (str ''</'')"
    unfolding full by (simp add: startsWith_def str_simps)
  have len: "length (matched ?s ?m) = length N + length attrs + 3" unfolding full by simp
  have step: "tokenizeStep ?s ?m st =
      Inr (afterCloseTag N (length pre) (length N + length attrs + 3) st)"
    by (rule tokenizeStep_close [OF g1 low sw len]) simp
  show ?thesis
    by (subst tokenizeLoop.simps)
       (simp only: search step option.case sum.case RegExpMatch.select_convs)
qed

lemma tokenizeLoop_end: "tokenizeLoop text (length text) st = Some (Inr (snd st))"
proof -
  have "tagAt text (length text) = None" by (simp add: tagAt_def)
  then have "rmatch tagRegex text (length text, Map.empty) = []"
    by (simp only: tag_first [symmetric] firstOf_None_iff)
  then have "rsearch tagRegex text (length text) = None"
    by (auto simp: rsearch_None dest: le_antisym)
  then show ?thesis by (subst tokenizeLoop.simps) simp
qed

lemma loop_openTag:
  assumes "tagName N"
  shows "tokenizeLoop (pre @ openTag N @ post) (length pre) st =
         tokenizeLoop (pre @ openTag N @ post) (length (pre @ openTag N))
           (afterOpenTag N False (length pre) (length (openTag N)) st)"
  using tokenizeLoop_open_tag [OF assms, of "[]" pre post st] by (simp add: openTag_def)

lemma loop_closeTag:
  assumes "tagName N"
  shows "tokenizeLoop (pre @ closeTag N @ post) (length pre) st =
         tokenizeLoop (pre @ closeTag N @ post) (length (pre @ closeTag N))
           (afterCloseTag N (length pre) (length (closeTag N)) st)"
proof -
  have t: "pre @ closeTag N @ post = pre @ 0x3C # 0x2F # N @ [] @ 0x3E # post"
    by (simp add: closeTag_def)
  have p: "length (pre @ closeTag N) = length pre + length N + length ([] :: jsstring) + 3"
    by (simp add: closeTag_def)
  have l: "length (closeTag N) = length N + length ([] :: jsstring) + 3"
    by (simp add: closeTag_def)
  show ?thesis unfolding t p l by (rule tokenizeLoop_close_tag [OF assms]) simp_all
qed

lemma loop_selfClosingTag:
  assumes "tagName N"
  shows "tokenizeLoop (pre @ selfClosingTag N @ post) (length pre) st =
         tokenizeLoop (pre @ selfClosingTag N @ post) (length (pre @ selfClosingTag N))
           (afterOpenTag N True (length pre) (length (selfClosingTag N)) st)"
proof -
  have "\<not> isNameChar 0x2F" by (simp add: isNameChar_def isLetter_def)
  then show ?thesis
    using tokenizeLoop_open_tag [OF assms, of "[0x2F]" pre post st]
    by (simp add: selfClosingTag_def)
qed

lemma nestedDoc_tags: "nestedDoc P C = openTag P @ openTag C @ closeTag C @ closeTag P"
  by (simp add: nestedDoc_def openTag_def closeTag_def str_simps)

lemma nestedDoc_tokens:
  assumes "tagName P" "tagName C"
  shows "tokenizeTags (nestedDoc P C) =
     Some (Inr (snd
       (afterCloseTag P (length (openTag P @ openTag C @ closeTag C)) (length (closeTag P))
       (afterCloseTag C (length (openTag P @ openTag C)) (length (closeTag C))
       (afterOpenTag C False (length (openTag P)) (length (openTag C))
       (afterOpenTag P False 0 (length (openTag P)) (None, [])))))))"
proof -
  let ?d = "openTag P @ openTag C @ closeTag C @ closeTag P"
  let ?s1 = "afterOpenTag P False 0 (length (openTag P)) (None, [])"
  let ?s2 = "afterOpenTag C False (length (openTag P)) (length (openTag C)) ?s1"
  let ?s3 = "afterCloseTag C (length (openTag P @ openTag C)) (length (closeTag C)) ?s2"
  let ?s4 = "afterCloseTag P (length (openTag P @ openTag C @ closeTag C)) (length (closeTag P)) ?s3"
  have 1: "tokenizeLoop ?d 0 (None, []) = tokenizeLoop ?d (length (openTag P)) ?s1"
    using loop_openTag [OF assms(1), of "[]" "openTag C @ closeTag C @ closeTag P" "(None, [])"]
    by (simp only: append_Nil list.size(3))
  have 2: "tokenizeLoop ?d (length (openTag P)) ?s1 = tokenizeLoop ?d (length (openTag P @ openTag C)) ?s2"
    using loop_openTag [OF assms(2), of "openTag P" "closeTag C @ closeTag P" ?s1] .
  have 3: "tokenizeLoop ?d (length (openTag P @ openTag C)) ?s2
             = tokenizeLoop ?d (length (openTag P @ openTag C @ closeTag C)) ?s3"
    using loop_closeTag [OF assms(2), of "openTag P @ openTag C" "closeTag P" ?s2]
    by (simp only: append_assoc)
  have 4: "tokenizeLoop ?d (length (openTag P @ openTag C @ closeTag C)) ?s3
             = tokenizeLoop ?d (length ?d) ?s4"
    using loop_closeTag [OF assms(1), of "openTag P @ openTag C @ closeTag C" "[]" ?s3]
    by (simp only: append_assoc append_Nil2)
  show ?thesis
    unfolding tokenizeTags_def nestedDoc_tags by (simp only: 1 2 3 4 tokenizeLoop_end)
qed

section \<open>Properties of the nesting check\<close>

lemma closeLoop_result:
  "k \<le> length stack \<Longrightarrow>
   (\<exists>i < k. frame_name (stack ! i) = n \<and> (\<forall>j. i < j \<and> j < k \<longrightarrow> frame_name (stack ! j) \<noteq> n) \<and>
            closeLoop stack n k = Inr (take i stack)) \<or>
   ((\<forall>j < k. frame_name (stack ! j) \<noteq> n) \<and> closeLoop stack n k = Inr stack)"
proof (induction k)
  case 0
  then show ?case by simp
next
  case (Suc k)
  show ?case
  proof (cases "frame_name (stack ! k) = n")
    case True
    then have "closeLoop stack n (Suc k) = Inr (take k stack)" using Suc.prems by simp
    with True show ?thesis by auto
  next
    case False
    then have eq: "closeLoop stack n (Suc k) = closeLoop stack n k" using Suc.prems by simp
    from Suc.IH Suc.prems consider
      i where "i < k" "frame_name (stack ! i) = n"
        "\<forall>j. i < j \<and> j < k \<longrightarrow> frame_name (stack ! j) \<noteq> n" "closeLoop stack n k = Inr (take i stack)"
      | "\<forall>j < k. frame_name (stack ! j) \<noteq> n" "closeLoop stack n k = Inr stack"
      by auto
    then show ?thesis
    proof cases
      case 1
      then have "\<forall>j. i < j \<and> j < Suc k \<longrightarrow> frame_name (stack ! j) \<noteq> n"
        using False by (auto simp: less_Suc_eq)
      with 1 eq show ?thesis by (intro disjI1 exI [of _ i]) simp
    next
      case 2
      then have "\<forall>j < Suc k. frame_name (stack ! j) \<noteq> n" using False by (auto simp: less_Suc_eq)
      with 2 eq show ?thesis by simp
    qed
  qed
qed

section \<open>A child directly inside its parent\<close>

lemma catalogue_tagName: "list_all tagName ALL_HTML_TAGS"
  by (simp add: ALL_HTML_TAGS_def tagName_def isLower_def isLowerNameChar_def str_simps)

lemma parents_not_special:
  "list_all (\<lambda>p. p \<notin> set VOID_ELEMENTS \<and> p \<notin> set SKIP_CONTENT_TAGS)
     (strictParents @ [str ''figcaption'', str ''caption''])"
  by (simp add: strictParents_def VOID_ELEMENTS_def SKIP_CONTENT_TAGS_def)

lemma complete_parent_not_special:
  assumes "rule \<in> set NESTING_RULES_COMPLETE"
  shows "parent rule \<notin> set VOID_ELEMENTS" "parent rule \<notin> set SKIP_CONTENT_TAGS"
  using complete_parents [OF assms] parents_not_special by (auto simp: list_all_iff)

lemma complete_tagName:
  assumes "rule \<in> set NESTING_RULES_COMPLETE"
  shows "tagName (parent rule)" "tagName (child rule)"
  using complete_in_catalogue [OF assms] catalogue_tagName by (auto simp: list_all_iff)

lemma withAbsoluteOffset_eq:
  "withAbsoluteOffset region \<lparr>err_parent = p, err_child = c, err_offset = off, err_length = len, err_rule = r\<rparr>
     = \<lparr>err_parent = p, err_child = c, err_offset = off, err_length = len, err_rule = r,
        absoluteOffset = int off + baseOffset region\<rparr>"
  by (simp add: withAbsoluteOffset_def NestingError.defs DocumentError.defs)

lemma closeLoop_top:
  "frame_name f = n \<Longrightarrow> closeLoop (stack @ [f]) n (length (stack @ [f])) = Inr stack"
  by simp

lemma analyze_html:
  "tokenizeTags content = Some (Inr tokens) \<Longrightarrow> findNestingErrors tokens = Inr errors \<Longrightarrow>
   analyzeDocument content (str ''html'') =
     Some (Inr (map (withAbsoluteOffset \<lparr>region_text = content, baseOffset = 0\<rparr>) errors))"
  by (simp add: analyzeDocument_def extractMarkupRegions_def)

lemma nestedDoc_analysis:
  assumes "RULES_MAP key = Some rule"
  shows "analyzeDocument (nestedDoc (parent rule) (child rule)) (str ''html'') =
     Some (Inr (if child rule \<in> set VOID_ELEMENTS \<or> child rule \<in> set SKIP_CONTENT_TAGS then []
                else [\<lparr>err_parent = parent rule, err_child = child rule,
                       err_offset = length (parent rule) + 2,
                       err_length = length (child rule) + 2,
                       err_rule = rule,
                       absoluteOffset = int (length (parent rule)) + 2\<rparr>]))"
proof -
  let ?P = "parent rule" and ?C = "child rule"
  from RULES_MAP_Some [OF assms] have mem: "rule \<in> set NESTING_RULES_COMPLETE"
    and key: "key = ruleKey ?P ?C" by simp_all
  have look: "RULES_MAP (ruleKey ?P ?C) = Some rule" using assms key by simp
  have P: "tagName ?P" and C: "tagName ?C" using complete_tagName [OF mem] by simp_all
  have Pv: "?P \<notin> set VOID_ELEMENTS" and Ps: "?P \<notin> set SKIP_CONTENT_TAGS"
    using complete_parent_not_special [OF mem] by simp_all
  have Pne: "?P \<noteq> []" using P by (simp add: tagName_def)
  have lens: "length (openTag ?P) = length ?P + 2" "length (openTag ?C) = length ?C + 2"
    by (simp_all add: openTag_def)
  note toks = nestedDoc_tokens [OF P C]
  consider (skip) "?C \<in> set SKIP_CONTENT_TAGS"
    | (void) "?C \<notin> set SKIP_CONTENT_TAGS" "?C \<in> set VOID_ELEMENTS"
    | (plain) "?C \<notin> set SKIP_CONTENT_TAGS" "?C \<notin> set VOID_ELEMENTS"
    by blast
  then show ?thesis
  proof cases
    case skip
    then have "?C \<noteq> []" using C by (simp add: tagName_def)
    then have t: "tokenizeTags (nestedDoc ?P ?C) =
        Some (Inr [\<lparr>tok_type = Open, tok_name = ?P, tok_offset = 0, tok_length = length (openTag ?P)\<rparr>,
                   \<lparr>tok_type = Close, tok_name = ?P,
                     tok_offset = length (openTag ?P @ openTag ?C @ closeTag ?C),
                     tok_length = length (closeTag ?P)\<rparr>])"
      using skip Pv Ps unfolding toks by (simp add: afterOpenTag_def afterCloseTag_def)
    have f: "findNestingErrors
        [\<lparr>tok_type = Open, tok_name = ?P, tok_offset = 0, tok_length = length (openTag ?P)\<rparr>,
         \<lparr>tok_type = Close, tok_name = ?P,
           tok_offset = length (openTag ?P @ openTag ?C @ closeTag ?C),
           tok_length = length (closeTag ?P)\<rparr>] = Inr []"
      by (simp add: findNestingErrors_def findStep_def)
    show ?thesis using analyze_html [OF t f] skip by simp
  next
    case void
    then have ne: "?C \<noteq> ?P" using Pv by auto
    have t: "tokenizeTags (nestedDoc ?P ?C) =
        Some (Inr [\<lparr>tok_type = Open, tok_name = ?P, tok_offset = 0, tok_length = length (openTag ?P)\<rparr>,
                   \<lparr>tok_type = SelfClosing, tok_name = ?C, tok_offset = length (openTag ?P),
                     tok_length = length (openTag ?C)\<rparr>,
                   \<lparr>tok_type = Close, tok_name = ?C, tok_offset = length (openTag ?P @ openTag ?C),
                     tok_length = length (closeTag ?C)\<rparr>,
                   \<lparr>tok_type = Close, tok_name = ?P,
                     tok_offset = length (openTag ?P @ openTag ?C @ closeTag ?C),
                     tok_length = length (closeTag ?P)\<rparr>])"
      using void Pv Ps unfolding toks by (simp add: afterOpenTag_def afterCloseTag_def)
    have f: "findNestingErrors
        [\<lparr>tok_type = Open, tok_name = ?P, tok_offset = 0, tok_length = length (openTag ?P)\<rparr>,
         \<lparr>tok_type = SelfClosing, tok_name = ?C, tok_offset = length (openTag ?P),
           tok_length = length (openTag ?C)\<rparr>,
         \<lparr>tok_type = Close, tok_name = ?C, tok_offset = length (openTag ?P @ openTag ?C),
           tok_length = length (closeTag ?C)\<rparr>,
         \<lparr>tok_type = Close, tok_name = ?P,
           tok_offset = length (openTag ?P @ openTag ?C @ closeTag ?C),
           tok_length = length (closeTag ?P)\<rparr>] = Inr []"
      using ne by (simp add: findNestingErrors_def findStep_def)
    show ?thesis using analyze_html [OF t f] void by simp
  next
    case plain
    have t: "tokenizeTags (nestedDoc ?P ?C) =
        Some (Inr [\<lparr>tok_type = Open, tok_name = ?P, tok_offset = 0, tok_length = length (openTag ?P)\<rparr>,
                   \<lparr>tok_type = Open, tok_name = ?C, tok_offset = length (openTag ?P),
                     tok_length = length (openTag ?C)\<rparr>,
                   \<lparr>tok_type = Close, tok_name = ?C, tok_offset = length (openTag ?P @ openTag ?C),
                     tok_length = length (closeTag ?C)\<rparr>,
                   \<lparr>tok_type = Close, tok_name = ?P,
                     tok_offset = length (openTag ?P @ openTag ?C @ closeTag ?C),
                     tok_length = length (closeTag ?P)\<rparr>])"
      using plain Pv Ps unfolding toks by (simp add: afterOpenTag_def afterCloseTag_def)
    have f: "findNestingErrors
        [\<lparr>tok_type = Open, tok_name = ?P, tok_offset = 0, tok_length = length (openTag ?P)\<rparr>,
         \<lparr>tok_type = Open, tok_name = ?C, tok_offset = length (openTag ?P),
           tok_length = length (openTag ?C)\<rparr>,
         \<lparr>tok_type = Close, tok_name = ?C, tok_offset = length (openTag ?P @ openTag ?C),
           tok_length = length (closeTag ?C)\<rparr>,
         \<lparr>tok_type = Close, tok_name = ?P,
           tok_offset = length (openTag ?P @ openTag ?C @ closeTag ?C),
           tok_length = length (closeTag ?P)\<rparr>]
       = Inr [\<lparr>err_parent = ?P, err_child = ?C, err_offset = length (openTag ?P),
               err_length = length (openTag ?C), err_rule = rule\<rparr>]"
      by (simp add: findNestingErrors_def findStep_def look Let_def)
    show ?thesis using analyze_html [OF t f] plain by (simp add: withAbsoluteOffset_eq lens)
  qed
qed

lemma nestedDoc_p_div: "nestedDoc (str ''p'') (str ''div'') = str ''<p><div></div></p>''"
  by (simp add: nestedDoc_def str_append [symmetric])

lemma nestedDoc_a_input: "nestedDoc (str ''a'') (str ''input'') = str ''<a><input></input></a>''"
  by (simp add: nestedDoc_def str_append [symmetric])

lemma analyze_p_div:
  "analyzeDocument (str ''<p><div></div></p>'') (str ''html'') =
     Some (Inr [\<lparr>err_parent = str ''p'', err_child = str ''div'', err_offset = 3, err_length = 5,
                 err_rule = makeRule (str ''p'') (str ''div'') (phrasingReason (str ''p''))
                              phrasingAlternatives DEFAULT_REFS,
                 absoluteOffset = 3\<rparr>])"
proof -
  have v: "str ''div'' \<notin> set VOID_ELEMENTS" "str ''div'' \<notin> set SKIP_CONTENT_TAGS"
    by (simp_all add: VOID_ELEMENTS_def SKIP_CONTENT_TAGS_def)
  have l: "length (str ''p'') = 1" "length (str ''div'') = 3" by (simp_all add: str_def)
  show ?thesis
    using nestedDoc_analysis [OF RULES_MAP_p_div] v l by (simp add: nestedDoc_p_div)
qed

lemma analyze_a_input:
  "(\<exists>rule. RULES_MAP (ruleKey (str ''a'') (str ''input'')) = Some rule) \<and>
   analyzeDocument (str ''<a><input></input></a>'') (str ''html'') = Some (Inr [])"
proof -
  have "(str ''a'', str ''input'') \<in> set explicitPairs" by (simp add: explicitPairs_def)
  from explicit_rule_present [OF this] obtain rule
    where r: "RULES_MAP (ruleKey (str ''a'') (str ''input'')) = Some rule" by blast
  have "0x3A \<notin> set (str ''a'')" by (simp add: str_simps)
  from RULES_MAP_key_Some [OF r this]
  have pc: "parent rule = str ''a''" "child rule = str ''input''" by simp_all
  have v: "str ''input'' \<in> set VOID_ELEMENTS" by (simp add: VOID_ELEMENTS_def)
  from nestedDoc_analysis [OF r] pc v
  have "analyzeDocument (str ''<a><input></input></a>'') (str ''html'') = Some (Inr [])"
    by (simp add: nestedDoc_a_input)
  with r show ?thesis by blast
qed

lemma RULES_MAP_div_span: "RULES_MAP (ruleKey (str ''div'') (str ''span'')) = None"
proof (rule RULES_MAP_no_parent)
  show "str ''div'' \<notin> set strictParents" by (simp add: strictParents_def)
  show "str ''div'' \<noteq> str ''figcaption''" "str ''div'' \<noteq> str ''caption''" by simp_all
  show "0x3A \<notin> set (str ''div'')" by (simp add: str_simps)
qed

lemma analyze_unbalanced:
  "analyzeDocument (str ''<div><span></div>'') (str ''html'') = Some (Inr [])"
proof -
  have t: "tokenizeTags (str ''<div><span></div>'') =
     Some (Inr [\<lparr>tok_type = Open, tok_name = str ''div'', tok_offset = 0, tok_length = 5\<rparr>,
                \<lparr>tok_type = Open, tok_name = str ''span'', tok_offset = 5, tok_length = 6\<rparr>,
                \<lparr>tok_type = Close, tok_name = str ''div'', tok_offset = 11, tok_length = 6\<rparr>])"
    by code_simp
  have f: "findNestingErrors
       [\<lparr>tok_type = Open, tok_name = str ''div'', tok_offset = 0, tok_length = 5\<rparr>,
        \<lparr>tok_type = Open, tok_name = str ''span'', tok_offset = 5, tok_length = 6\<rparr>,
        \<lparr>tok_type = Close, tok_name = str ''div'', tok_offset = 11, tok_length = 6\<rparr>] = Inr []"
    by (simp add: findNestingErrors_def findStep_def Let_def RULES_MAP_div_span)
  show ?thesis using analyze_html [OF t f] by simp
qed

section \<open>Properties of the region extractor\<close>

lemma extractJsxRegions_no_return:
  assumes "\<forall>i \<le> length content. rmatch returnRegex content (i, Map.empty) = []"
  shows "extractJsxRegions content = Some [\<lparr>region_text = content, baseOffset = 0\<rparr>]"
proof -
  have "rsearch returnRegex content 0 = None" using assms by (simp add: rsearch_None)
  then have "jsxLoop content 0 [] = Some []" by (subst jsxLoop.simps) simp
  then show ?thesis by (simp add: extractJsxRegions_def)
qed

section \<open>The tokenizer in skip mode\<close>

lemma tag_search_group:
  assumes "rsearch tagRegex text i = Some m"
  obtains g where "group text m 1 = Some g"
proof -
  from tag_search_Some(5) [OF assms] obtain a b where "caps m 1 = Some (a, b)" by blast
  then have "group text m 1 = Some (take (b - a) (drop a text))" by (simp add: group_def)
  then show ?thesis by (rule that)
qed

lemma skip_step:
  assumes "u \<noteq> []"
  shows "tokenizeLoop text i (Some u, toks) =
     (case rsearch tagRegex text i of
        None \<Rightarrow> Some (Inr toks)
      | Some m \<Rightarrow> tokenizeLoop text (mend m) (if closesTag text m u then None else Some u, toks))"
proof (cases "rsearch tagRegex text i")
  case None
  then show ?thesis by (subst tokenizeLoop.simps) simp
next
  case (Some m)
  then obtain g where g: "group text m 1 = Some g" by (rule tag_search_group)
  have "tokenizeStep text m (Some u, toks) = Inr (if closesTag text m u then None else Some u, toks)"
    using assms g by (auto simp: tokenizeStep_def closesTag_def Let_def)
  then show ?thesis using Some by (subst tokenizeLoop.simps) simp
qed

lemma enter_skip_step:
  assumes "rsearch tagRegex text i = Some m" "group text m 1 = Some g"
    "\<not> startsWith (matched text m) (str ''</'')" "toLowerCase g \<in> set SKIP_CONTENT_TAGS"
  shows "tokenizeLoop text i (None, toks) = tokenizeLoop text (mend m) (Some (toLowerCase g), toks)"
proof -
  have "tokenizeStep text m (None, toks) = Inr (Some (toLowerCase g), toks)"
    using assms(2,3,4) by (simp add: tokenizeStep_def Let_def)
  then show ?thesis using assms(1) by (subst tokenizeLoop.simps) simp
qed

lemma tokenizeStep_tokens:
  assumes "tokenizeStep text m (sk, toks) = Inr (sk', toks')"
  shows "toks' = toks \<or> (\<exists>t. toks' = toks @ [t] \<and> tok_offset t = index m)"
  using assms by (auto simp: tokenizeStep_def Let_def split: option.splits if_splits)

lemma tokenizeLoop_offsets:
  assumes "tokenizeLoop text i (sk, toks) = Some (Inr res)"
  shows "\<exists>new. res = toks @ new \<and> (\<forall>t \<in> set new. i \<le> tok_offset t)"
  using assms
proof (induction "Suc (length text) - i" arbitrary: i sk toks rule: less_induct)
  case less
  show ?case
  proof (cases "rsearch tagRegex text i")
    case None
    then have "res = toks" using less.prems by (subst (asm) tokenizeLoop.simps) simp
    then show ?thesis by simp
  next
    case (Some m)
    from tag_search_Some [OF Some]
    have m: "i \<le> index m" "index m < mend m" "mend m \<le> length text" by simp_all
    from less.prems Some obtain sk' toks' where
      st: "tokenizeStep text m (sk, toks) = Inr (sk', toks')"
      and rec: "tokenizeLoop text (mend m) (sk', toks') = Some (Inr res)"
      by (subst (asm) tokenizeLoop.simps) (auto split: sum.splits)
    have "Suc (length text) - mend m < Suc (length text) - i" using m by simp
    from less.hyps [OF this rec] obtain new
      where new: "res = toks' @ new" "\<forall>t \<in> set new. mend m \<le> tok_offset t" by blast
    from tokenizeStep_tokens [OF st] show ?thesis
    proof
      assume "toks' = toks"
      then show ?thesis using new m by (intro exI [of _ new]) auto
    next
      assume "\<exists>t. toks' = toks @ [t] \<and> tok_offset t = index m"
      then obtain t where t: "toks' = toks @ [t]" "tok_offset t = index m" by blast
      then show ?thesis using new m by (intro exI [of _ "t # new"]) auto
    qed
  qed
qed

lemma skip_span:
  assumes "u \<noteq> []" "tokenizeLoop text i (Some u, toks) = Some (Inr res)"
  shows "\<exists>new. res = toks @ new \<and>
           (\<forall>t \<in> set new. \<exists>k m. i \<le> k \<and> rsearch tagRegex text k = Some m \<and>
                                   closesTag text m u \<and> mend m \<le> tok_offset t)"
  using assms(2)
proof (induction "Suc (length text) - i" arbitrary: i rule: less_induct)
  case less
  show ?case
  proof (cases "rsearch tagRegex text i")
    case None
    then have "res = toks" using less.prems by (simp add: skip_step [OF assms(1)])
    then show ?thesis by simp
  next
    case (Some m)
    from tag_search_Some [OF Some]
    have m: "i \<le> index m" "index m < mend m" "mend m \<le> length text" by simp_all
    show ?thesis
    proof (cases "closesTag text m u")
      case True
      then have "tokenizeLoop text (mend m) (None, toks) = Some (Inr res)"
        using less.prems Some by (simp add: skip_step [OF assms(1)])
      from tokenizeLoop_offsets [OF this] obtain new
        where "res = toks @ new" "\<forall>t \<in> set new. mend m \<le> tok_offset t" by blast
      then show ?thesis using Some True by (intro exI [of _ new]) auto
    next
      case False
      then have rec: "tokenizeLoop text (mend m) (Some u, toks) = Some (Inr res)"
        using less.prems Some by (simp add: skip_step [OF assms(1)])
      have "Suc (length text) - mend m < Suc (length text) - i" using m by simp
      from less.hyps [OF this rec] obtain new where new: "res = toks @ new"
        "\<forall>t \<in> set new. \<exists>k m'. mend m \<le> k \<and> rsearch tagRegex text k = Some m' \<and>
                                   closesTag text m' u \<and> mend m' \<le> tok_offset t" by blast
      have "\<exists>k m'. i \<le> k \<and> rsearch tagRegex text k = Some m' \<and>
                   closesTag text m' u \<and> mend m' \<le> tok_offset t" if "t \<in> set new" for t
      proof -
        from new(2) that obtain k m' where "mend m \<le> k" "rsearch tagRegex text k = Some m'"
          "closesTag text m' u" "mend m' \<le> tok_offset t" by blast
        moreover have "i \<le> k" using m \<open>mend m \<le> k\<close> by simp
        ultimately show ?thesis by blast
      qed
      with new(1) show ?thesis by blast
    qed
  qed
qed

lemma skip_to_end:
  assumes "u \<noteq> []"
    "\<And>k m. i \<le> k \<Longrightarrow> rsearch tagRegex text k = Some m \<Longrightarrow> \<not> closesTag text m u"
  shows "tokenizeLoop text i (Some u, toks) = Some (Inr toks)"
proof -
  obtain res where res: "tokenizeLoop text i (Some u, toks) = Some (Inr res)"
    using tokenizeLoop_total by blast
  from skip_span [OF assms(1) res] obtain new where new: "res = toks @ new"
    "\<forall>t \<in> set new. \<exists>k m. i \<le> k \<and> rsearch tagRegex text k = Some m \<and>
                             closesTag text m u \<and> mend m \<le> tok_offset t" by blast
  have "new = []"
  proof (cases new)
    case Nil
    then show ?thesis .
  next
    case (Cons t ts)
    with new(2) obtain k m where "i \<le> k" "rsearch tagRegex text k = Some m" "closesTag text m u"
      by auto
    with assms(2) show ?thesis by blast
  qed
  with res new(1) show ?thesis by simp
qed

lemma raw_text_span:
  assumes "rsearch tagRegex text i = Some m" "group text m 1 = Some g"
    "\<not> startsWith (matched text m) (str ''</'')" "toLowerCase g \<in> set SKIP_CONTENT_TAGS"
    "tokenizeLoop text i (None, toks) = Some (Inr res)"
  shows "\<exists>new. res = toks @ new \<and>
           (\<forall>t \<in> set new. \<exists>k m'. mend m \<le> k \<and> rsearch tagRegex text k = Some m' \<and>
                                    closesTag text m' (toLowerCase g) \<and> mend m' \<le> tok_offset t)"
proof -
  have "toLowerCase g \<noteq> []" using assms(4) by (auto simp: SKIP_CONTENT_TAGS_def str_simps)
  moreover have "tokenizeLoop text (mend m) (Some (toLowerCase g), toks) = Some (Inr res)"
    using enter_skip_step [OF assms(1,2,3,4), of toks] assms(5) by simp
  ultimately show ?thesis by (rule skip_span)
qed

lemma script_facts:
  "toLowerCase (str ''script'') = str ''script''" "str ''script'' \<in> set SKIP_CONTENT_TAGS"
  "str ''script'' \<noteq> []" "tagName (str ''script'')"
  by (simp_all add: toLowerCase_def toLowerChar_def SKIP_CONTENT_TAGS_def tagName_def
      isLower_def isLowerNameChar_def str_simps)

lemma selfClosing_enters_skip:
  assumes "tagName N" "N \<in> set SKIP_CONTENT_TAGS"
  shows "tokenizeLoop (pre @ selfClosingTag N @ post) (length pre) (None, toks) =
         tokenizeLoop (pre @ selfClosingTag N @ post) (length (pre @ selfClosingTag N)) (Some N, toks)"
  using loop_selfClosingTag [OF assms(1), of pre post "(None, toks)"] assms(2)
  by (simp add: afterOpenTag_def)

section \<open>Claims\<close>

text \<open>
  Claim C1. For a pair that has both an explicit rule and a generated rule, the rule
  stored in \<open>RULES_MAP\<close> should be the explicit one. The code stores the generated
  one: the merged list puts the explicit rules first, and \<open>buildRulesMap\<close> lets a
  later rule replace an earlier one. For \<open>(p, div)\<close>, the first explicit rule, the
  stored rule is a generated rule, with the generic reason and alternatives, and it
  is the rule that the analysis of \<open><p><div></div></p>\<close> reports.
\<close>

theorem C1_generated_rule_replaces_explicit:
  "parent (hd NESTING_RULES) = str ''p'' \<and> child (hd NESTING_RULES) = str ''div'' \<and>
   (\<exists>rule. RULES_MAP (ruleKey (str ''p'') (str ''div'')) = Some rule \<and>
      rule \<in> set GENERATED_NESTING_RULES \<and>
      reason rule = str ''<p> solo puede contener phrasing content (contenido inline).'' \<and>
      reason rule \<noteq> reason (hd NESTING_RULES) \<and>
      alternatives rule \<noteq> alternatives (hd NESTING_RULES)) \<and>
   analyzeDocument (str ''<p><div></div></p>'') (str ''html'') =
     Some (Inr [\<lparr>err_parent = str ''p'', err_child = str ''div'', err_offset = 3, err_length = 5,
                 err_rule = makeRule (str ''p'') (str ''div'')
                   (str ''<p> solo puede contener phrasing content (contenido inline).'')
                   [str ''Mueve elementos de bloque fuera del contenedor o usa un wrapper de bloque.'']
                   DEFAULT_REFS,
                 absoluteOffset = 3\<rparr>])"
proof -
  let ?g = "makeRule (str ''p'') (str ''div'') (phrasingReason (str ''p'')) phrasingAlternatives
             DEFAULT_REFS"
  have e: "parent (hd NESTING_RULES) = str ''p''" "child (hd NESTING_RULES) = str ''div''"
    by (simp_all add: NESTING_RULES_def)
  have g: "?g \<in> set GENERATED_NESTING_RULES"
    using autoRules_p_div by (simp add: generated_set ALL_HTML_TAGS_def)
  have r: "reason ?g = str ''<p> solo puede contener phrasing content (contenido inline).''"
    by (simp add: phrasingReason_def str_append [symmetric])
  have "reason (hd NESTING_RULES) \<noteq> str ''<p> solo puede contener phrasing content (contenido inline).''"
    by (simp add: NESTING_RULES_def str_simps)
  moreover have "alternatives (hd NESTING_RULES) \<noteq> alternatives ?g"
    by (simp add: NESTING_RULES_def phrasingAlternatives_def)
  ultimately have "\<exists>rule. RULES_MAP (ruleKey (str ''p'') (str ''div'')) = Some rule \<and>
      rule \<in> set GENERATED_NESTING_RULES \<and>
      reason rule = str ''<p> solo puede contener phrasing content (contenido inline).'' \<and>
      reason rule \<noteq> reason (hd NESTING_RULES) \<and>
      alternatives rule \<noteq> alternatives (hd NESTING_RULES)"
    using g r RULES_MAP_p_div by (metis (no_types))
  moreover have "phrasingReason (str ''p'')
      = str ''<p> solo puede contener phrasing content (contenido inline).''"
    by (simp add: phrasingReason_def str_append [symmetric])
  ultimately show ?thesis using e analyze_p_div by (simp add: phrasingAlternatives_def)
qed

text \<open>
  Claim C2. For every rule \<open>(P, C)\<close> of the catalogue, the analysis of
  \<open><P><C></C></P>\<close> should return exactly one violation. It does not when \<open>C\<close> is a
  void element: the catalogue has a rule for \<open>input\<close> inside \<open>a\<close>, and the analysis of
  \<open><a><input></input></a>\<close> returns no violation, because \<open><input>\<close> becomes a
  self-closing token, which is never checked against its parent.
\<close>

theorem C2_counterexample:
  "(\<exists>rule. RULES_MAP (ruleKey (str ''a'') (str ''input'')) = Some rule) \<and>
   nestedDoc (str ''a'') (str ''input'') = str ''<a><input></input></a>'' \<and>
   analyzeDocument (str ''<a><input></input></a>'') (str ''html'') = Some (Inr [])"
  using analyze_a_input nestedDoc_a_input by blast

text \<open>
  Claim C2, as amended. For every rule stored in \<open>RULES_MAP\<close>, with parent \<open>P\<close> and
  child \<open>C\<close>: if \<open>C\<close> is neither a void element nor one of the raw-text tags
  \<open>script\<close>, \<open>style\<close>, \<open>template\<close>, the analysis of \<open><P><C></C></P>\<close> in the plain
  dialect returns exactly one violation, with parent \<open>P\<close>, child \<open>C\<close>, the stored rule, and
  the position of \<open><C>\<close>; if \<open>C\<close> is a void element or a raw-text tag it returns no
  violation.
\<close>

theorem C2_one_violation_for_plain_children:
  assumes "RULES_MAP key = Some rule"
  shows "analyzeDocument (nestedDoc (parent rule) (child rule)) (str ''html'') =
     Some (Inr (if child rule \<in> set VOID_ELEMENTS \<or> child rule \<in> set SKIP_CONTENT_TAGS then []
                else [\<lparr>err_parent = parent rule, err_child = child rule,
                       err_offset = length (parent rule) + 2,
                       err_length = length (child rule) + 2,
                       err_rule = rule,
                       absoluteOffset = int (length (parent rule)) + 2\<rparr>]))"
  using assms by (rule nestedDoc_analysis)

text \<open>The rule stored for \<open>p\<close> and \<open>div\<close>, and the document \<open><p><div></div></p>\<close>.\<close>

theorem C2_witness:
  "RULES_MAP (ruleKey (str ''p'') (str ''div'')) =
     Some (makeRule (str ''p'') (str ''div'') (phrasingReason (str ''p'')) phrasingAlternatives
             DEFAULT_REFS) \<and>
   analyzeDocument (str ''<p><div></div></p>'') (str ''html'') =
     Some (Inr [\<lparr>err_parent = str ''p'', err_child = str ''div'', err_offset = 3, err_length = 5,
                 err_rule = makeRule (str ''p'') (str ''div'') (phrasingReason (str ''p''))
                              phrasingAlternatives DEFAULT_REFS,
                 absoluteOffset = 3\<rparr>])"
proof -
  have v: "str ''div'' \<notin> set VOID_ELEMENTS" "str ''div'' \<notin> set SKIP_CONTENT_TAGS"
    by (simp_all add: VOID_ELEMENTS_def SKIP_CONTENT_TAGS_def)
  have l: "length (str ''p'') = 1" "length (str ''div'') = 3" by (simp_all add: str_def)
  show ?thesis
    using C2_one_violation_for_plain_children [OF RULES_MAP_p_div] RULES_MAP_p_div v l
    by (simp add: nestedDoc_p_div)
qed

text \<open>
  Claim C3. For every input text, well-formed or not, and every dialect,
  \<open>analyzeDocument\<close> ends and returns a list of violations: no loop runs for ever and
  no exception is thrown. In particular the unbalanced document
  \<open><div><span></div>\<close> is analysed without error (its list is empty).
\<close>

theorem C3_analyzeDocument_always_returns:
  "(\<exists>errors. analyzeDocument content languageId = Some (Inr errors)) \<and>
   analyzeDocument (str ''<div><span></div>'') (str ''html'') = Some (Inr [])"
  using analyzeDocument_total [of content languageId] analyze_unbalanced by blast

text \<open>
  Claim C4. Analysing \<open><p><script>&lt;div&gt;</script></p>\<close> or
  \<open><p><style>div{}</style></p>\<close> as plain markup yields no violation: the only
  tokens are those of the \<open>p\<close> element. In general, when the tokenizer, not in skip
  mode, meets an opening tag whose lower-cased name is a raw-text tag, every token
  it emits from then on starts at or after the end of a later close tag of that
  name; so no token comes from the span between the opening tag and its close tag.
\<close>

theorem C4_raw_text_not_tokenized:
  "tokenizeTags (str ''<p><script>&lt;div&gt;</script></p>'') =
     Some (Inr [\<lparr>tok_type = Open, tok_name = str ''p'', tok_offset = 0, tok_length = 3\<rparr>,
                \<lparr>tok_type = Close, tok_name = str ''p'', tok_offset = 31, tok_length = 4\<rparr>]) \<and>
   analyzeDocument (str ''<p><script>&lt;div&gt;</script></p>'') (str ''html'') = Some (Inr []) \<and>
   tokenizeTags (str ''<p><style>div{}</style></p>'') =
     Some (Inr [\<lparr>tok_type = Open, tok_name = str ''p'', tok_offset = 0, tok_length = 3\<rparr>,
                \<lparr>tok_type = Close, tok_name = str ''p'', tok_offset = 23, tok_length = 4\<rparr>]) \<and>
   analyzeDocument (str ''<p><style>div{}</style></p>'') (str ''html'') = Some (Inr []) \<and>
   (rsearch tagRegex text i = Some m \<and> group text m 1 = Some g \<and>
    \<not> startsWith (matched text m) (str ''</'') \<and> toLowerCase g \<in> set SKIP_CONTENT_TAGS \<and>
    tokenizeLoop text i (None, toks) = Some (Inr res) \<longrightarrow>
      (\<exists>new. res = toks @ new \<and>
         (\<forall>t \<in> set new. \<exists>k m'. mend m \<le> k \<and> rsearch tagRegex text k = Some m' \<and>
                                  closesTag text m' (toLowerCase g) \<and> mend m' \<le> tok_offset t)))"
proof -
  have a: "tokenizeTags (str ''<p><script>&lt;div&gt;</script></p>'') =
     Some (Inr [\<lparr>tok_type = Open, tok_name = str ''p'', tok_offset = 0, tok_length = 3\<rparr>,
                \<lparr>tok_type = Close, tok_name = str ''p'', tok_offset = 31, tok_length = 4\<rparr>])"
    by code_simp
  have b: "analyzeDocument (str ''<p><script>&lt;div&gt;</script></p>'') (str ''html'') = Some (Inr [])"
    by code_simp
  have c: "tokenizeTags (str ''<p><style>div{}</style></p>'') =
     Some (Inr [\<lparr>tok_type = Open, tok_name = str ''p'', tok_offset = 0, tok_length = 3\<rparr>,
                \<lparr>tok_type = Close, tok_name = str ''p'', tok_offset = 23, tok_length = 4\<rparr>])"
    by code_simp
  have d: "analyzeDocument (str ''<p><style>div{}</style></p>'') (str ''html'') = Some (Inr [])"
    by code_simp
  from a b c d raw_text_span [of "text" i m g toks res] show ?thesis by blast
qed

text \<open>
  In \<open><script><b></script><i>\<close> the only token is \<open><i>\<close>, at offset 20, after the
  end of \<open></script>\<close>.
\<close>

theorem C4_witness:
  "tokenizeTags (str ''<script><b></script><i>'') =
     Some (Inr [\<lparr>tok_type = Open, tok_name = str ''i'', tok_offset = 20, tok_length = 3\<rparr>]) \<and>
   (\<exists>k m'. 8 \<le> k \<and> rsearch tagRegex (str ''<script><b></script><i>'') k = Some m' \<and>
            closesTag (str ''<script><b></script><i>'') m' (str ''script'') \<and> mend m' \<le> 20)"
proof -
  let ?T = "str ''<script><b></script><i>''"
  let ?tok = "\<lparr>tok_type = Open, tok_name = str ''i'', tok_offset = 20, tok_length = 3\<rparr>"
  have "map_option (\<lambda>m. (index m, mend m, caps m 1)) (rsearch tagRegex ?T 0) = Some (0, 8, Some (1, 7))"
    by code_simp
  then obtain m where m: "rsearch tagRegex ?T 0 = Some m" "index m = 0" "mend m = 8"
    "caps m 1 = Some (1, 7)" by auto
  have g: "group ?T m 1 = Some (str ''script'')" using m by (simp add: group_def str_simps)
  have sw: "\<not> startsWith (matched ?T m) (str ''</'')"
    using m by (simp add: matched_def startsWith_def str_simps)
  have res: "tokenizeLoop ?T 0 (None, []) = Some (Inr [?tok])"
    unfolding tokenizeTags_def [symmetric] by code_simp
  from C4_raw_text_not_tokenized [of ?T 0 m "str ''script''" "[]" "[?tok]"] m(1) g sw res
  have "\<exists>new. [?tok] = [] @ new \<and>
         (\<forall>t \<in> set new. \<exists>k m'. mend m \<le> k \<and> rsearch tagRegex ?T k = Some m' \<and>
                                  closesTag ?T m' (toLowerCase (str ''script'')) \<and> mend m' \<le> tok_offset t)"
    by (simp add: script_facts)
  then have "\<exists>k m'. mend m \<le> k \<and> rsearch tagRegex ?T k = Some m' \<and>
      closesTag ?T m' (toLowerCase (str ''script'')) \<and> mend m' \<le> tok_offset ?tok"
    by auto
  then show ?thesis using res by (simp add: m(3) script_facts tokenizeTags_def)
qed

text \<open>
  Claim C5. On a close token named \<open>N\<close>: if some frame of the stack is named \<open>N\<close>,
  the topmost such frame and all frames above it are removed and the frames below
  it stay; if no frame is named \<open>N\<close>, the stack stays as it is. In both cases no
  violation is recorded and the step does not fail.
\<close>

theorem C5_close_token:
  assumes "tok_type token = Close"
  shows "if tok_name token \<in> frame_name ` set stack
         then \<exists>below frame above.
                stack = below @ frame # above \<and> frame_name frame = tok_name token \<and>
                tok_name token \<notin> frame_name ` set above \<and>
                findStep (errors, stack) token = Inr (errors, below)
         else findStep (errors, stack) token = Inr (errors, stack)"
proof -
  let ?n = "tok_name token"
  have step: "findStep (errors, stack) token =
      (case closeLoop stack ?n (length stack) of Inl e \<Rightarrow> Inl e | Inr stack' \<Rightarrow> Inr (errors, stack'))"
    using assms by (simp add: findStep_def)
  from closeLoop_result [of "length stack" stack ?n] consider
    i where "i < length stack" "frame_name (stack ! i) = ?n"
      "\<forall>j. i < j \<and> j < length stack \<longrightarrow> frame_name (stack ! j) \<noteq> ?n"
      "closeLoop stack ?n (length stack) = Inr (take i stack)"
    | "\<forall>j < length stack. frame_name (stack ! j) \<noteq> ?n" "closeLoop stack ?n (length stack) = Inr stack"
    by auto
  then show ?thesis
  proof cases
    case 1
    have mem: "?n \<in> frame_name ` set stack" using 1(1,2) by (metis imageI nth_mem)
    have split: "stack = take i stack @ stack ! i # drop (Suc i) stack"
      using 1(1) by (simp add: id_take_nth_drop [symmetric])
    have "?n \<notin> frame_name ` set (drop (Suc i) stack)"
    proof
      assume "?n \<in> frame_name ` set (drop (Suc i) stack)"
      then obtain f where "f \<in> set (drop (Suc i) stack)" "frame_name f = ?n" by auto
      then obtain j where "j < length (drop (Suc i) stack)" "drop (Suc i) stack ! j = f"
        by (auto simp: in_set_conv_nth)
      then have "Suc i + j < length stack" "frame_name (stack ! (Suc i + j)) = ?n"
        using \<open>frame_name f = ?n\<close> by auto
      with 1(3) show False by auto
    qed
    with split 1(2,4) step mem show ?thesis by (auto simp del: append_take_drop_id)
  next
    case 2
    then have "?n \<notin> frame_name ` set stack" by (auto simp: in_set_conv_nth)
    with 2 step show ?thesis by simp
  qed
qed

text \<open>
  On the stack \<open>div, span\<close> the token \<open></div>\<close> removes both frames; on the stack
  \<open>div\<close> the token \<open></p>\<close> changes nothing.
\<close>

theorem C5_witness:
  "tok_type \<lparr>tok_type = Close, tok_name = str ''div'', tok_offset = 11, tok_length = 6\<rparr> = Close \<and>
   findStep ([], [\<lparr>frame_name = str ''div'', frame_offset = 0\<rparr>,
                  \<lparr>frame_name = str ''span'', frame_offset = 5\<rparr>])
     \<lparr>tok_type = Close, tok_name = str ''div'', tok_offset = 11, tok_length = 6\<rparr> = Inr ([], []) \<and>
   findStep ([], [\<lparr>frame_name = str ''div'', frame_offset = 0\<rparr>])
     \<lparr>tok_type = Close, tok_name = str ''p'', tok_offset = 5, tok_length = 4\<rparr>
     = Inr ([], [\<lparr>frame_name = str ''div'', frame_offset = 0\<rparr>])"
proof -
  let ?t1 = "\<lparr>tok_type = Close, tok_name = str ''div'', tok_offset = 11, tok_length = 6\<rparr>"
  let ?t2 = "\<lparr>tok_type = Close, tok_name = str ''p'', tok_offset = 5, tok_length = 4\<rparr>"
  let ?div = "\<lparr>frame_name = str ''div'', frame_offset = 0\<rparr>"
  let ?span = "\<lparr>frame_name = str ''span'', frame_offset = 5\<rparr>"
  have c1: "tok_type ?t1 = Close" and c2: "tok_type ?t2 = Close" by simp_all
  from C5_close_token [OF c1, of "[?div, ?span]" "[]"]
  obtain below frame above where
    s: "[?div, ?span] = below @ frame # above" "frame_name frame = str ''div''"
      "str ''div'' \<notin> frame_name ` set above"
      "findStep ([], [?div, ?span]) ?t1 = Inr ([], below)"
    by auto
  have "below = []"
  proof (cases below)
    case Nil
    then show ?thesis .
  next
    case (Cons b bs)
    with s(1) have "b = ?div" "?span # [] = bs @ frame # above" by simp_all
    then have "frame = ?span" by (cases bs) auto
    with s(2) show ?thesis by simp
  qed
  with s(4) have r1: "findStep ([], [?div, ?span]) ?t1 = Inr ([], [])" by simp
  from C5_close_token [OF c2, of "[?div]" "[]"]
  have r2: "findStep ([], [?div]) ?t2 = Inr ([], [?div])" by simp
  from c1 r1 r2 show ?thesis by simp
qed

text \<open>
  Claim C6. A self-closing token leaves the parent stack and the list of violations
  as they are, whatever rule the catalogue holds for the current parent and the
  token's name. A tag that is not a close tag and not a raw-text tag becomes a
  self-closing token when it ends in \<open>/>\<close> or its name is a void element. The
  catalogue has a rule for \<open>input\<close> inside \<open>select\<close>, and still the analysis of
  \<open><select><input/></select>\<close> reports nothing.
\<close>

theorem C6_self_closing_not_checked:
  "(tok_type token = SelfClosing \<longrightarrow> findStep (errors, stack) token = Inr (errors, stack)) \<and>
   (group text m 1 = Some g \<and> \<not> startsWith (matched text m) (str ''</'') \<and>
    toLowerCase g \<notin> set SKIP_CONTENT_TAGS \<and>
    (endsWith (matched text m) (str ''/>'') \<or> toLowerCase g \<in> set VOID_ELEMENTS) \<longrightarrow>
      tokenizeStep text m (None, tokens) =
        Inr (None, tokens @ [\<lparr>tok_type = SelfClosing, tok_name = toLowerCase g,
                               tok_offset = index m, tok_length = length (matched text m)\<rparr>])) \<and>
   (\<exists>rule. RULES_MAP (ruleKey (str ''select'') (str ''input'')) = Some rule) \<and>
   tokenizeTags (str ''<select><input/></select>'') =
     Some (Inr [\<lparr>tok_type = Open, tok_name = str ''select'', tok_offset = 0, tok_length = 8\<rparr>,
                \<lparr>tok_type = SelfClosing, tok_name = str ''input'', tok_offset = 8, tok_length = 8\<rparr>,
                \<lparr>tok_type = Close, tok_name = str ''select'', tok_offset = 16, tok_length = 9\<rparr>]) \<and>
   analyzeDocument (str ''<select><input/></select>'') (str ''html'') = Some (Inr [])"
proof -
  have a: "tok_type token = SelfClosing \<longrightarrow> findStep (errors, stack) token = Inr (errors, stack)"
    by (simp add: findStep_def)
  have b: "group text m 1 = Some g \<and> \<not> startsWith (matched text m) (str ''</'') \<and>
    toLowerCase g \<notin> set SKIP_CONTENT_TAGS \<and>
    (endsWith (matched text m) (str ''/>'') \<or> toLowerCase g \<in> set VOID_ELEMENTS) \<longrightarrow>
      tokenizeStep text m (None, tokens) =
        Inr (None, tokens @ [\<lparr>tok_type = SelfClosing, tok_name = toLowerCase g,
                               tok_offset = index m, tok_length = length (matched text m)\<rparr>])"
    by (auto simp: tokenizeStep_def Let_def)
  have c: "tokenizeTags (str ''<select><input/></select>'') =
     Some (Inr [\<lparr>tok_type = Open, tok_name = str ''select'', tok_offset = 0, tok_length = 8\<rparr>,
                \<lparr>tok_type = SelfClosing, tok_name = str ''input'', tok_offset = 8, tok_length = 8\<rparr>,
                \<lparr>tok_type = Close, tok_name = str ''select'', tok_offset = 16, tok_length = 9\<rparr>])"
    by code_simp
  have d: "analyzeDocument (str ''<select><input/></select>'') (str ''html'') = Some (Inr [])"
    by code_simp
  from a b c d RULES_MAP_select_input show ?thesis by blast
qed

text \<open>
  The token of \<open><input/></select>\<close> under the frame \<open>select\<close>, and the
  classification of the void tag \<open><br>\<close>.
\<close>

theorem C6_witness:
  "findStep ([], [\<lparr>frame_name = str ''select'', frame_offset = 0\<rparr>])
     \<lparr>tok_type = SelfClosing, tok_name = str ''input'', tok_offset = 8, tok_length = 8\<rparr>
     = Inr ([], [\<lparr>frame_name = str ''select'', frame_offset = 0\<rparr>]) \<and>
   tokenizeStep (str ''<br>'') \<lparr>index = 0, mend = 4, caps = [1 \<mapsto> (1, 3), 2 \<mapsto> (3, 3)]\<rparr> (None, [])
     = Inr (None, [\<lparr>tok_type = SelfClosing, tok_name = str ''br'', tok_offset = 0, tok_length = 4\<rparr>])"
proof -
  let ?tok = "\<lparr>tok_type = SelfClosing, tok_name = str ''input'', tok_offset = 8, tok_length = 8\<rparr>"
  let ?m = "\<lparr>index = 0, mend = 4, caps = [1 \<mapsto> (1, 3), 2 \<mapsto> (3, 3)]\<rparr>"
  have g: "group (str ''<br>'') ?m 1 = Some (str ''br'')" by (simp add: group_def str_simps)
  have f: "matched (str ''<br>'') ?m = str ''<br>''" by (simp add: matched_def str_simps)
  have l: "toLowerCase (str ''br'') = str ''br''" by (simp add: toLowerCase_def toLowerChar_def str_simps)
  have h: "\<not> startsWith (matched (str ''<br>'') ?m) (str ''</'')"
    unfolding f by (simp add: startsWith_def str_simps)
  have s: "toLowerCase (str ''br'') \<notin> set SKIP_CONTENT_TAGS"
    unfolding l by (simp add: SKIP_CONTENT_TAGS_def)
  have v: "toLowerCase (str ''br'') \<in> set VOID_ELEMENTS"
    unfolding l by (simp add: VOID_ELEMENTS_def)
  have len: "length (matched (str ''<br>'') ?m) = 4" unfolding f by (simp add: str_simps)
  from C6_self_closing_not_checked
    [of ?tok "[]" "[\<lparr>frame_name = str ''select'', frame_offset = 0\<rparr>]" "str ''<br>''" ?m "str ''br''" "[]"]
    g h s v l len
  show ?thesis by simp
qed

text \<open>
  Claim C8. For the two component dialects, when the return regex matches at no
  position of the text, \<open>extractMarkupRegions\<close> returns one region, the whole text
  with base offset 0. It returns the same for every dialect other than the two
  component dialects and the two template dialects, so for every dialect the program
  does not know.
\<close>

theorem C8_whole_text_fallback:
  "((languageId = str ''javascriptreact'' \<or> languageId = str ''typescriptreact'') \<and>
    (\<forall>i \<le> length content. rmatch returnRegex content (i, Map.empty) = []) \<longrightarrow>
      extractMarkupRegions content languageId = Some [\<lparr>region_text = content, baseOffset = 0\<rparr>]) \<and>
   (languageId \<noteq> str ''javascriptreact'' \<and> languageId \<noteq> str ''typescriptreact'' \<and>
    languageId \<noteq> str ''vue'' \<and> languageId \<noteq> str ''svelte'' \<longrightarrow>
      extractMarkupRegions content languageId = Some [\<lparr>region_text = content, baseOffset = 0\<rparr>])"
  using extractJsxRegions_no_return [of content]
  by (auto simp: extractMarkupRegions_def)

text \<open>
  A component file whose \<open>return\<close> is not followed by a parenthesis, and a dialect
  the program does not know.
\<close>

theorem C8_witness:
  "extractMarkupRegions (str ''return <p></p>;'') (str ''javascriptreact'')
     = Some [\<lparr>region_text = str ''return <p></p>;'', baseOffset = 0\<rparr>] \<and>
   extractMarkupRegions (str ''<p></p>'') (str ''markdown'')
     = Some [\<lparr>region_text = str ''<p></p>'', baseOffset = 0\<rparr>]"
proof -
  have "rsearch returnRegex (str ''return <p></p>;'') 0 = None" by code_simp
  then have n: "\<forall>i \<le> length (str ''return <p></p>;'').
      rmatch returnRegex (str ''return <p></p>;'') (i, Map.empty) = []"
    by (simp add: rsearch_None)
  have d: "str ''markdown'' \<noteq> str ''javascriptreact''" "str ''markdown'' \<noteq> str ''typescriptreact''"
    "str ''markdown'' \<noteq> str ''vue''" "str ''markdown'' \<noteq> str ''svelte''" by simp_all
  from C8_whole_text_fallback [of "str ''javascriptreact''" "str ''return <p></p>;''"] n
  have 1: "extractMarkupRegions (str ''return <p></p>;'') (str ''javascriptreact'')
     = Some [\<lparr>region_text = str ''return <p></p>;'', baseOffset = 0\<rparr>]" by blast
  from C8_whole_text_fallback [of "str ''markdown''" "str ''<p></p>''"] d
  have 2: "extractMarkupRegions (str ''<p></p>'') (str ''markdown'')
     = Some [\<lparr>region_text = str ''<p></p>'', baseOffset = 0\<rparr>]" by blast
  from 1 2 show ?thesis by simp
qed

text \<open>
  Claim C9. Every rule of the merged list \<open>NESTING_RULES_COMPLETE\<close> has its parent
  tag and its child tag in the catalogue \<open>ALL_HTML_TAGS\<close>, and so has every rule
  stored in \<open>RULES_MAP\<close>, whose key is built from those two tags.
\<close>

theorem C9_rules_within_catalogue:
  "(\<forall>rule \<in> set NESTING_RULES_COMPLETE.
      parent rule \<in> set ALL_HTML_TAGS \<and> child rule \<in> set ALL_HTML_TAGS) \<and>
   (\<forall>key rule. RULES_MAP key = Some rule \<longrightarrow>
      key = ruleKey (parent rule) (child rule) \<and>
      parent rule \<in> set ALL_HTML_TAGS \<and> child rule \<in> set ALL_HTML_TAGS)"
  using complete_in_catalogue RULES_MAP_Some by blast

text \<open>The rule stored for \<open>caption\<close> and \<open>table\<close>, as an instance.\<close>

theorem C9_witness:
  "(\<exists>rule. rule \<in> set NESTING_RULES_COMPLETE \<and> parent rule = str ''caption'' \<and>
            child rule = str ''table'' \<and>
            RULES_MAP (ruleKey (str ''caption'') (str ''table'')) = Some rule) \<and>
   str ''caption'' \<in> set ALL_HTML_TAGS \<and> str ''table'' \<in> set ALL_HTML_TAGS"
proof -
  have "(str ''caption'', str ''table'') \<in> set explicitPairs"
    by (simp add: explicitPairs_def)
  from explicit_rule_present [OF this] obtain rule
    where r: "RULES_MAP (ruleKey (str ''caption'') (str ''table'')) = Some rule" by blast
  have nc: "0x3A \<notin> set (str ''caption'')" by (simp add: str_simps)
  from RULES_MAP_key_Some [OF r nc]
  have m: "rule \<in> set NESTING_RULES_COMPLETE" "parent rule = str ''caption''"
    "child rule = str ''table''" by simp_all
  from C9_rules_within_catalogue m r show ?thesis by metis
qed

text \<open>
  Claim C10. A self-closing raw-text tag such as \<open><script/>\<close> still enters skip mode:
  no token is emitted for the tag, and the loop goes on behind it with
  \<open>skipUntil\<close> set to its name. In skip mode every later token starts at or after
  the end of a close tag of that name, and when no such close tag follows, no further
  token is emitted at all. So \<open><p><script/><div></div></p>\<close> has the single token
  \<open><p>\<close> and no violation, although \<open>(p, div)\<close> is a rule; and in
  \<open><script/><b></script><i>\<close> the tag \<open><b>\<close> is suppressed and \<open><i>\<close> is not.
\<close>

theorem C10_self_closing_raw_text_tag:
  "(tagName N \<and> N \<in> set SKIP_CONTENT_TAGS \<longrightarrow>
      tokenizeLoop (pre @ selfClosingTag N @ post) (length pre) (None, toks) =
      tokenizeLoop (pre @ selfClosingTag N @ post) (length (pre @ selfClosingTag N)) (Some N, toks)) \<and>
   (u \<noteq> [] \<and> tokenizeLoop text i (Some u, toks) = Some (Inr res) \<longrightarrow>
      (\<exists>new. res = toks @ new \<and>
         (\<forall>t \<in> set new. \<exists>k m. i \<le> k \<and> rsearch tagRegex text k = Some m \<and>
                                 closesTag text m u \<and> mend m \<le> tok_offset t))) \<and>
   (u \<noteq> [] \<and> (\<forall>k m. i \<le> k \<and> rsearch tagRegex text k = Some m \<longrightarrow> \<not> closesTag text m u) \<longrightarrow>
      tokenizeLoop text i (Some u, toks) = Some (Inr toks)) \<and>
   tokenizeTags (str ''<p><script/><div></div></p>'') =
     Some (Inr [\<lparr>tok_type = Open, tok_name = str ''p'', tok_offset = 0, tok_length = 3\<rparr>]) \<and>
   analyzeDocument (str ''<p><script/><div></div></p>'') (str ''html'') = Some (Inr []) \<and>
   tokenizeTags (str ''<script/><b></script><i>'') =
     Some (Inr [\<lparr>tok_type = Open, tok_name = str ''i'', tok_offset = 21, tok_length = 3\<rparr>])"
proof -
  have a: "tokenizeTags (str ''<p><script/><div></div></p>'') =
     Some (Inr [\<lparr>tok_type = Open, tok_name = str ''p'', tok_offset = 0, tok_length = 3\<rparr>])"
    by code_simp
  have b: "analyzeDocument (str ''<p><script/><div></div></p>'') (str ''html'') = Some (Inr [])"
    by code_simp
  have c: "tokenizeTags (str ''<script/><b></script><i>'') =
     Some (Inr [\<lparr>tok_type = Open, tok_name = str ''i'', tok_offset = 21, tok_length = 3\<rparr>])"
    by code_simp
  have d: "u \<noteq> [] \<and> (\<forall>k m. i \<le> k \<and> rsearch tagRegex text k = Some m \<longrightarrow> \<not> closesTag text m u) \<longrightarrow>
      tokenizeLoop text i (Some u, toks) = Some (Inr toks)"
    using skip_to_end [of u i "text" toks] by blast
  from a b c d selfClosing_enters_skip [of N pre post toks] skip_span [of u "text" i toks res]
  show ?thesis by blast
qed

text \<open>
  The three general statements at \<open><p><script/><div></div></p>\<close> (entering skip mode
  behind \<open><script/>\<close>, and no token up to the end of the text) and at
  \<open><script/><b></script><i>\<close> (the token \<open><i>\<close> lies behind \<open></script>\<close>).
\<close>

theorem C10_witness:
  "tokenizeLoop (str ''<p><script/><div></div></p>'') 3 (None, []) =
     tokenizeLoop (str ''<p><script/><div></div></p>'') 12 (Some (str ''script''), []) \<and>
   tokenizeLoop (str ''<p><script/><div></div></p>'') 12 (Some (str ''script''), []) = Some (Inr []) \<and>
   (\<exists>k m. 9 \<le> k \<and> rsearch tagRegex (str ''<script/><b></script><i>'') k = Some m \<and>
           closesTag (str ''<script/><b></script><i>'') m (str ''script'') \<and> mend m \<le> 21)"
proof -
  let ?T = "str ''<p><script/><div></div></p>''"
  let ?T' = "str ''<script/><b></script><i>''"
  let ?tok = "\<lparr>tok_type = Open, tok_name = str ''i'', tok_offset = 21, tok_length = 3\<rparr>"
  note main = C10_self_closing_raw_text_tag
  have T: "str ''<p>'' @ selfClosingTag (str ''script'') @ str ''<div></div></p>'' = ?T"
    by (simp add: selfClosingTag_def str_simps)
  have l: "length (str ''<p>'') = 3" "length (str ''<p>'' @ selfClosingTag (str ''script'')) = 12"
    by (simp_all add: selfClosingTag_def str_simps)
  from main [of "str ''script''" "str ''<p>''" "str ''<div></div></p>''" "[]"] script_facts(2,4)
  have w1: "tokenizeLoop ?T 3 (None, []) = tokenizeLoop ?T 12 (Some (str ''script''), [])"
    unfolding T l by blast
  have e: "\<forall>k \<in> set [12..<28].
      (case rsearch tagRegex ?T k of None \<Rightarrow> True | Some m \<Rightarrow> \<not> closesTag ?T m (str ''script''))"
    by code_simp
  have len: "length ?T = 27" by (simp add: str_def)
  have none: "\<not> closesTag ?T m (str ''script'')" if "12 \<le> k" "rsearch tagRegex ?T k = Some m" for k m
  proof (cases "k < 28")
    case True
    with that(1) have "k \<in> {12..<28}" by simp
    then have "k \<in> set [12..<28]" by (simp only: set_upt)
    from bspec [OF e this] that(2) show ?thesis by simp
  next
    case False
    then have "rsearch tagRegex ?T k = None" by (subst rsearch_firstOf) (simp add: len)
    with that(2) show ?thesis by simp
  qed
  from main [of _ _ _ _ "str ''script''" ?T 12 "[]"] script_facts(3) none
  have w3: "tokenizeLoop ?T 12 (Some (str ''script''), []) = Some (Inr [])" by blast
  have r: "tokenizeLoop ?T' 9 (Some (str ''script''), []) = Some (Inr [?tok])" by code_simp
  from main [of _ _ _ "[]" "str ''script''" ?T' 9 "[?tok]"] script_facts(3) r
  have "\<exists>new. [?tok] = [] @ new \<and>
         (\<forall>t \<in> set new. \<exists>k m. 9 \<le> k \<and> rsearch tagRegex ?T' k = Some m \<and>
                                 closesTag ?T' m (str ''script'') \<and> mend m \<le> tok_offset t)"
    by blast
  then have w2: "\<exists>k m. 9 \<le> k \<and> rsearch tagRegex ?T' k = Some m \<and>
      closesTag ?T' m (str ''script'') \<and> mend m \<le> 21" by auto
  from w1 w3 w2 show ?thesis by blast
qed

end
